theory Spec2Isabelle
  imports Main "HOL-Library.Multiset"
begin

section \<open>The scheduling request layer of the daily task planner\<close>

text \<open>
  A shallow embedding of \<^verbatim>\<open>src/services/openai.ts\<close>: the rate limiter, the prompt,
  the validation of the model's reply, the conversion to the 12-hour clock, the sort and
  the retry loop of \<^verbatim>\<open>planTasks\<close>.

  JavaScript strings are modelled as \<^typ>\<open>string\<close> (code units below 256), numbers
  that the code computes with as \<^typ>\<open>nat\<close> or \<^typ>\<open>int\<close>, thrown exceptions as the
  left summand of a sum type, and the mutable state of the module (the clock, the rate
  limiter's list, the caller's arrays) as a record that is passed along.
\<close>

subsection \<open>Strings and decimal numerals\<close>

definition in_range :: "char \<Rightarrow> char \<Rightarrow> char \<Rightarrow> bool" where
  "in_range lo hi c \<longleftrightarrow> (of_char lo :: nat) \<le> of_char c \<and> (of_char c :: nat) \<le> of_char hi"

definition is_digit :: "char \<Rightarrow> bool" where
  "is_digit c \<longleftrightarrow> in_range (CHR ''0'') (CHR ''9'') c"

definition digit_val :: "char \<Rightarrow> nat" where
  "digit_val c = of_char c - 48"

definition digit_char :: "nat \<Rightarrow> char" where
  "digit_char n = char_of (48 + n)"

text \<open>\<^verbatim>\<open>n.toString()\<close> for a non-negative integer \<open>n\<close>: its decimal numeral.\<close>

function toString_nat :: "nat \<Rightarrow> string" where
  "toString_nat n =
     (if n < 10 then [digit_char n] else toString_nat (n div 10) @ [digit_char (n mod 10)])"
  by pat_completeness auto
termination
  by (relation "measure (\<lambda>n. n)") auto

declare toString_nat.simps [simp del]

text \<open>\<^verbatim>\<open>s.padStart(n, '0')\<close>.\<close>

definition padStart :: "nat \<Rightarrow> char \<Rightarrow> string \<Rightarrow> string" where
  "padStart n c s = replicate (n - length s) c @ s"

text \<open>\<^verbatim>\<open>s.split(c)\<close> for a one-character separator: never the empty list.\<close>

fun split :: "char \<Rightarrow> string \<Rightarrow> string list" where
  "split c [] = [[]]"
| "split c (x # xs) =
     (if x = c then [] # split c xs
      else (case split c xs of p # ps \<Rightarrow> (x # p) # ps | [] \<Rightarrow> [[x]]))"

text \<open>
  \<^verbatim>\<open>Number(s)\<close> on the strings the validator lets through: a non-empty string of
  ASCII digits denotes its decimal value. \<open>None\<close> marks a string outside this fragment
  (whose conversion is not modelled), not a failure of the code.
\<close>

definition Number :: "string \<Rightarrow> nat option" where
  "Number s =
     (if s \<noteq> [] \<and> list_all is_digit s
      then Some (foldl (\<lambda>acc c. 10 * acc + digit_val c) 0 s) else None)"

subsection \<open>The time pattern\<close>

text \<open>
  The regular expression \<^verbatim>\<open>/^([01]?[0-9]|2[0-3]):[0-5][0-9]$/\<close> as a term, and
  a backtracking matcher: \<open>rests r s\<close> lists what can remain of \<open>s\<close> after \<open>r\<close> has matched
  a prefix of it. The pattern is anchored at both ends, so \<^verbatim>\<open>test\<close> succeeds when
  nothing can remain.
\<close>

datatype regex =
    Range char char
  | Lit char
  | Seq regex regex
  | Alt regex regex
  | Opt regex

fun rests :: "regex \<Rightarrow> string \<Rightarrow> string list" where
  "rests (Range lo hi) s = (case s of [] \<Rightarrow> [] | c # cs \<Rightarrow> if in_range lo hi c then [cs] else [])"
| "rests (Lit a) s = (case s of [] \<Rightarrow> [] | c # cs \<Rightarrow> if c = a then [cs] else [])"
| "rests (Seq r1 r2) s = concat (map (rests r2) (rests r1 s))"
| "rests (Alt r1 r2) s = rests r1 s @ rests r2 s"
| "rests (Opt r) s = rests r s @ [s]"

definition timeRegex :: regex where
  "timeRegex =
     Seq (Alt (Seq (Opt (Range (CHR ''0'') (CHR ''1''))) (Range (CHR ''0'') (CHR ''9'')))
              (Seq (Lit (CHR ''2'')) (Range (CHR ''0'') (CHR ''3''))))
         (Seq (Lit (CHR '':''))
              (Seq (Range (CHR ''0'') (CHR ''5'')) (Range (CHR ''0'') (CHR ''9''))))"

definition timeRegex_test :: "string \<Rightarrow> bool" where
  "timeRegex_test s \<longleftrightarrow> [] \<in> set (rests timeRegex s)"

subsection \<open>Conversion to the 12-hour clock\<close>

text \<open>
  \<^verbatim>\<open>convertTo12Hour\<close>: split at the colon, read both parts as numbers, choose the
  period, reduce the hour modulo 12 (with 0 shown as 12) and pad the minutes.
  \<open>None\<close> only for strings outside the fragment of \<open>Number\<close> above.
\<close>

definition convertTo12Hour :: "string \<Rightarrow> string option" where
  "convertTo12Hour time24 =
     (case map Number (split (CHR '':'') time24) of
        Some hours # Some minutes # _ \<Rightarrow>
          let period = (if hours \<ge> 12 then ''PM'' else ''AM'');
              hours12 = (if hours mod 12 = 0 then 12 else hours mod 12)
          in Some (toString_nat hours12 @ '':'' @ padStart 2 (CHR ''0'') (toString_nat minutes)
                   @ '' '' @ period)
      | _ \<Rightarrow> None)"

subsection \<open>Values of the parsed reply\<close>

text \<open>
  The reply is typed \<^verbatim>\<open>any\<close>: whatever \<^verbatim>\<open>JSON.parse\<close> returns. \<open>JNum\<close> carries
  a number as the text that \<^verbatim>\<open>String(n)\<close> gives (so zero is \<open>''0''\<close>), \<open>JObj\<close> the own
  properties of an object, \<open>JUndefined\<close> the result of reading a property that is absent.
\<close>

datatype jsval =
    JUndefined
  | JNull
  | JBool bool
  | JNum string
  | JStr string
  | JArr "jsval list"
  | JObj "(string \<times> jsval) list"

text \<open>Truthiness, as \<^verbatim>\<open>!v\<close> tests it.\<close>

fun truthy :: "jsval \<Rightarrow> bool" where
  "truthy JUndefined = False"
| "truthy JNull = False"
| "truthy (JBool b) = b"
| "truthy (JNum n) = (n \<noteq> ''0'')"
| "truthy (JStr s) = (s \<noteq> [])"
| "truthy (JArr _) = True"
| "truthy (JObj _) = True"

text \<open>
  \<^verbatim>\<open>v.k\<close> for a value that is neither \<^verbatim>\<open>null\<close> nor \<^verbatim>\<open>undefined\<close> and a name
  \<open>k\<close> that no prototype defines (\<open>schedule\<close>, \<open>task\<close>, \<open>time\<close>, \<open>reason\<close>).
\<close>

fun getProp :: "jsval \<Rightarrow> string \<Rightarrow> jsval" where
  "getProp (JObj ps) k = (case map_of ps k of Some v \<Rightarrow> v | None \<Rightarrow> JUndefined)"
| "getProp _ k = JUndefined"

text \<open>\<^verbatim>\<open>xs.join(sep)\<close> on strings.\<close>

fun join :: "string \<Rightarrow> string list \<Rightarrow> string" where
  "join sep [] = []"
| "join sep [x] = x"
| "join sep (x # y # ys) = x @ sep @ join sep (y # ys)"

fun those_strings :: "string option list \<Rightarrow> string list option" where
  "those_strings [] = Some []"
| "those_strings (None # _) = None"
| "those_strings (Some x # xs) = (case those_strings xs of None \<Rightarrow> None | Some ys \<Rightarrow> Some (x # ys))"

text \<open>
  The conversion to a string that \<^verbatim>\<open>RegExp.prototype.test\<close> and a template literal
  apply to their argument. \<open>None\<close> is the TypeError of an object whose own \<open>toString\<close>
  property is not callable (no value of a parsed reply is). An array joins its elements
  with commas, \<^verbatim>\<open>null\<close> and \<^verbatim>\<open>undefined\<close> elements as the empty string.
\<close>

fun ToString :: "jsval \<Rightarrow> string option" where
  "ToString JUndefined = Some ''undefined''"
| "ToString JNull = Some ''null''"
| "ToString (JBool b) = Some (if b then ''true'' else ''false'')"
| "ToString (JNum n) = Some n"
| "ToString (JStr s) = Some s"
| "ToString (JArr xs) =
     (case those_strings
             (map (\<lambda>x. if x = JNull \<or> x = JUndefined then Some [] else ToString x) xs) of
        None \<Rightarrow> None
      | Some ss \<Rightarrow> Some (join '','' ss))"
| "ToString (JObj ps) =
     (if map_of ps ''toString'' = None then Some ''[object Object]'' else None)"

subsection \<open>Errors\<close>

record GeminiError =
  message :: string
  code :: "string option"
  isRetryable :: bool

text \<open>
  What a \<^verbatim>\<open>throw\<close> can carry: an instance of \<open>GeminiError\<close>, or anything else (a
  TypeError, the SyntaxError of \<^verbatim>\<open>JSON.parse\<close>, a failure of the transport), kept
  by its name.
\<close>

datatype thrown = Gemini GeminiError | Other string

definition isRetryableError :: "thrown \<Rightarrow> bool" where
  "isRetryableError error = (case error of Gemini g \<Rightarrow> isRetryable g | Other _ \<Rightarrow> True)"

definition noTasks :: GeminiError where
  "noTasks = \<lparr>message = ''No tasks provided for planning'', code = Some ''NO_TASKS'',
              isRetryable = False\<rparr>"

definition noResponse :: GeminiError where
  "noResponse = \<lparr>message = ''No response received from Gemini'', code = Some ''NO_RESPONSE'',
                 isRetryable = True\<rparr>"

definition missingSchedule :: GeminiError where
  "missingSchedule = \<lparr>message = ''Invalid response format: missing schedule array'',
                      code = Some ''INVALID_FORMAT'', isRetryable = True\<rparr>"

definition missingFields :: GeminiError where
  "missingFields = \<lparr>message = ''Invalid schedule item: missing required fields'',
                    code = Some ''INVALID_FORMAT'', isRetryable = True\<rparr>"

definition invalidTime :: "string \<Rightarrow> GeminiError" where
  "invalidTime t = \<lparr>message = ''Invalid time format: '' @ t, code = Some ''INVALID_FORMAT'',
                    isRetryable = True\<rparr>"

definition parseError :: GeminiError where
  "parseError = \<lparr>message = ''Failed to parse Gemini response'', code = Some ''PARSE_ERROR'',
                 isRetryable = True\<rparr>"

definition unknownError :: GeminiError where
  "unknownError = \<lparr>message = ''An unexpected error occurred while planning tasks'',
                   code = Some ''UNKNOWN_ERROR'', isRetryable = True\<rparr>"

definition exhausted :: GeminiError where
  "exhausted = \<lparr>message = ''Failed to plan tasks after multiple attempts'', code = None,
                isRetryable = True\<rparr>"

subsection \<open>Validation of one reply\<close>

record Task =
  description :: string

text \<open>
  The fields \<open>task\<close> and \<open>reason\<close> are handed on as they came, whatever their type; \<open>time\<close>
  is the string that \<open>convertTo12Hour\<close> built.
\<close>

record ScheduledTask =
  task :: jsval
  time :: string
  reason :: jsval

text \<open>The entries inside the validator carry the 24-hour time they are sorted by.\<close>

record validated = ScheduledTask +
  sortTime :: string

text \<open>
  The callback of \<^verbatim>\<open>parsedResponse.schedule.map\<close>. Reading a property of
  \<^verbatim>\<open>null\<close> throws a TypeError, and so does \<^verbatim>\<open>time24.split\<close> when the time is not a
  string. The last branch of \<open>convertTo12Hour\<close> is never taken (lemma
  \<open>validateItem_modelled\<close>).
\<close>

definition validateItem :: "jsval \<Rightarrow> thrown + validated" where
  "validateItem item =
     (if item = JNull \<or> item = JUndefined then Inl (Other ''TypeError'')
      else if \<not> truthy (getProp item ''task'') \<or> \<not> truthy (getProp item ''time'')
              \<or> \<not> truthy (getProp item ''reason'')
      then Inl (Gemini missingFields)
      else (case ToString (getProp item ''time'') of
              None \<Rightarrow> Inl (Other ''TypeError'')
            | Some s \<Rightarrow>
                if \<not> timeRegex_test s then Inl (Gemini (invalidTime s))
                else (case getProp item ''time'' of
                        JStr t \<Rightarrow>
                          (case convertTo12Hour t of
                             Some t12 \<Rightarrow>
                               Inr \<lparr>task = getProp item ''task'', time = t12,
                                    reason = getProp item ''reason'', sortTime = t\<rparr>
                           | None \<Rightarrow> Inl (Other ''outside the model''))
                      | _ \<Rightarrow> Inl (Other ''TypeError''))))"

text \<open>\<^verbatim>\<open>xs.map(f)\<close> with a callback that may throw: the first throw ends the map.\<close>

fun map_throwing :: "('a \<Rightarrow> 'e + 'b) \<Rightarrow> 'a list \<Rightarrow> 'e + 'b list" where
  "map_throwing f [] = Inr []"
| "map_throwing f (x # xs) =
     (case f x of
        Inl e \<Rightarrow> Inl e
      | Inr y \<Rightarrow> (case map_throwing f xs of Inl e \<Rightarrow> Inl e | Inr ys \<Rightarrow> Inr (y # ys)))"

text \<open>
  The comparator of the sort: minutes since midnight of \<open>a\<close> minus those of \<open>b\<close>. Every
  \<open>sortTime\<close> has passed the pattern, so both parts are numerals (lemma
  \<open>timeRegex_test_convert\<close>); the default is for strings outside the modelled fragment.
\<close>

definition minutesOfDay :: "string \<Rightarrow> nat option" where
  "minutesOfDay t =
     (case map Number (split (CHR '':'') t) of
        Some hours # Some minutes # _ \<Rightarrow> Some (hours * 60 + minutes)
      | _ \<Rightarrow> None)"

definition compareFn :: "validated \<Rightarrow> validated \<Rightarrow> int" where
  "compareFn a b =
     (case (minutesOfDay (sortTime a), minutesOfDay (sortTime b)) of
        (Some x, Some y) \<Rightarrow> int x - int y
      | _ \<Rightarrow> 0)"

text \<open>
  \<^verbatim>\<open>Array.prototype.sort\<close> with a comparator is a stable sort: here by insertion,
  each element going in front of the first one it does not exceed.
\<close>

fun insertBy :: "('a \<Rightarrow> 'a \<Rightarrow> int) \<Rightarrow> 'a \<Rightarrow> 'a list \<Rightarrow> 'a list" where
  "insertBy cmp x [] = [x]"
| "insertBy cmp x (y # ys) = (if cmp x y \<le> 0 then x # y # ys else y # insertBy cmp x ys)"

definition js_sort :: "('a \<Rightarrow> 'a \<Rightarrow> int) \<Rightarrow> 'a list \<Rightarrow> 'a list" where
  "js_sort cmp xs = foldr (insertBy cmp) xs []"

text \<open>\<^verbatim>\<open>s.replace(/p/g, '')\<close> for a literal pattern \<open>p\<close>, and \<^verbatim>\<open>s.trim()\<close>.\<close>

function remove_all :: "string \<Rightarrow> string \<Rightarrow> string" where
  "remove_all p s =
     (if s = [] then []
      else if p \<noteq> [] \<and> take (length p) s = p then remove_all p (drop (length p) s)
      else hd s # remove_all p (tl s))"
  by pat_completeness auto
termination
  by (relation "measure (\<lambda>(p, s). length s)") auto

declare remove_all.simps [simp del]

definition is_space :: "char \<Rightarrow> bool" where
  "is_space c \<longleftrightarrow> (of_char c :: nat) \<in> {9, 10, 11, 12, 13, 32, 160}"

definition trim :: "string \<Rightarrow> string" where
  "trim s = rev (dropWhile is_space (rev (dropWhile is_space s)))"

definition cleanResponse :: "string \<Rightarrow> string" where
  "cleanResponse response = trim (remove_all ''```'' (remove_all ''```json'' response))"

text \<open>
  The inner \<^verbatim>\<open>try\<close> block, with \<^verbatim>\<open>JSON.parse\<close> as a parameter (\<open>None\<close> is its
  SyntaxError), and its \<^verbatim>\<open>catch\<close>, which turns everything that is not a
  \<open>GeminiError\<close> into the parse error.
\<close>

definition validateSchedule :: "jsval list \<Rightarrow> thrown + ScheduledTask list" where
  "validateSchedule items =
     (case map_throwing validateItem items of
        Inl e \<Rightarrow> Inl e
      | Inr validatedSchedule \<Rightarrow>
          Inr (map ScheduledTask.truncate (js_sort compareFn validatedSchedule)))"

definition parseSchedule :: "(string \<Rightarrow> jsval option) \<Rightarrow> string \<Rightarrow> thrown + ScheduledTask list" where
  "parseSchedule JSON_parse response =
     (case JSON_parse (cleanResponse response) of
        None \<Rightarrow> Inl (Other ''SyntaxError'')
      | Some parsedResponse \<Rightarrow>
          if parsedResponse = JNull \<or> parsedResponse = JUndefined then Inl (Other ''TypeError'')
          else (case getProp parsedResponse ''schedule'' of
                  JArr items \<Rightarrow> validateSchedule items
                | _ \<Rightarrow> Inl (Gemini missingSchedule)))"

definition catchParse :: "thrown + 'a \<Rightarrow> thrown + 'a" where
  "catchParse r = (case r of Inl (Other _) \<Rightarrow> Inl (Gemini parseError) | _ \<Rightarrow> r)"

subsection \<open>The world around \<open>planTasks\<close>\<close>

text \<open>
  What the module does not decide is a parameter: the outcome and the duration of the
  \<open>k\<close>-th call of \<^verbatim>\<open>model.generateContent\<close> with \<^verbatim>\<open>response.text()\<close> (a throw of
  any value, or the text), by how many milliseconds the \<open>k\<close>-th timer fires late, and
  \<^verbatim>\<open>JSON.parse\<close>.
\<close>

record env =
  generateContent :: "nat \<Rightarrow> string \<Rightarrow> thrown + string"
  latency :: "nat \<Rightarrow> nat"
  lateness :: "nat \<Rightarrow> nat"
  JSON_parse :: "string \<Rightarrow> jsval option"

text \<open>
  The state: the arrays of the caller (an array is passed by reference), the clock that
  \<^verbatim>\<open>Date.now()\<close> reads, the list \<^verbatim>\<open>rateLimiter.requests\<close>, the number of timers
  set so far, and a log of what \<open>planTasks\<close> did to the outside, in order: the prompts it
  sent to the model and the delays it gave to \<^verbatim>\<open>sleep\<close>, with, for each logged event,
  the readings of the clock when it began and when it was over.
\<close>

type_synonym ref = nat

datatype event = Generate string | Sleep int

fun generated :: "event list \<Rightarrow> string list" where
  "generated [] = []"
| "generated (Generate prompt # evs) = prompt # generated evs"
| "generated (Sleep _ # evs) = generated evs"

record world =
  heap :: "ref \<Rightarrow> Task list"
  clock :: int
  requests :: "int list"
  timers :: nat
  log :: "event list"
  stamps :: "(int \<times> int) list"

text \<open>
  \<^verbatim>\<open>await new Promise(resolve => setTimeout(resolve, ms))\<close>: the caller goes on when
  the delay has passed (a negative delay counts as none), or later.
\<close>

definition setTimeout :: "env \<Rightarrow> int \<Rightarrow> world \<Rightarrow> world" where
  "setTimeout e ms w =
     w\<lparr>clock := clock w + max 0 ms + int (lateness e (timers w)), timers := Suc (timers w)\<rparr>"

definition sleep :: "env \<Rightarrow> int \<Rightarrow> world \<Rightarrow> world" where
  "sleep e ms w =
     (let w' = setTimeout e ms w
      in w'\<lparr>log := log w @ [Sleep ms], stamps := stamps w @ [(clock w, clock w')]\<rparr>)"

text \<open>The call of the model: the \<open>k\<close>-th one when \<open>k\<close> calls came before.\<close>

definition callModel :: "env \<Rightarrow> string \<Rightarrow> world \<Rightarrow> (thrown + string) \<times> world" where
  "callModel e prompt w =
     (let k = length (generated (log w))
      in (generateContent e k prompt,
          w\<lparr>log := log w @ [Generate prompt],
            stamps := stamps w @ [(clock w, clock w + int (latency e k))],
            clock := clock w + int (latency e k)\<rparr>))"

subsection \<open>The rate limiter\<close>

text \<open>
  \<^verbatim>\<open>RateLimiter.waitForSlot\<close>, for a limiter with the fields \<open>limit\<close> and \<open>windowMs\<close>.
  It calls itself after the wait, and nothing in it bounds the number of rounds, so the
  result is an option: \<open>None\<close> when it never returns. With no request left and the limit
  reached (a limit of zero), \<^verbatim>\<open>requests[0]\<close> is \<^verbatim>\<open>undefined\<close> and the wait \<^verbatim>\<open>NaN\<close>,
  which a timer takes as zero.
\<close>

partial_function (option) waitForSlot :: "env \<Rightarrow> int \<Rightarrow> int \<Rightarrow> world \<Rightarrow> world option" where
  "waitForSlot e limit windowMs w =
     (let now = clock w;
          kept = filter (\<lambda>time. now - time < windowMs) (requests w)
      in if int (length kept) \<ge> limit
         then (case kept of
                 [] \<Rightarrow> waitForSlot e limit windowMs (setTimeout e 0 (w\<lparr>requests := kept\<rparr>))
               | oldestRequest # _ \<Rightarrow>
                   waitForSlot e limit windowMs
                     (setTimeout e (windowMs - (now - oldestRequest)) (w\<lparr>requests := kept\<rparr>)))
         else Some (w\<lparr>requests := kept @ [now]\<rparr>))"

text \<open>\<^verbatim>\<open>const rateLimiter = new RateLimiter(3, 60000)\<close>.\<close>

definition rateLimit :: int where
  "rateLimit = 3"

definition rateWindow :: int where
  "rateWindow = 60000"

subsection \<open>The prompt\<close>

definition promptHead :: "string list" where
  \<open>promptHead =
     [''You are a task planning assistant. Create an optimal daily schedule based on the following tasks.'',
      ''  Consider factors like energy levels, task complexity, and natural breaks.'',
      ''  '',
      ''  Tasks:'']\<close>

definition promptTail :: "string list" where
  \<open>promptTail =
     [''  '',
      ''  Please provide a schedule in the following exact JSON format:'',
      ''  {'',
      ''    "schedule": ['',
      ''      {'',
      ''        "task": "exact task description",'',
      ''        "time": "HH:MM in 24-hour format",'',
      ''        "reason": "brief explanation of scheduling"'',
      ''      }'',
      ''    ]'',
      ''  }'',
      ''  '',
      ''  Important:'',
      ''  - Use exact 24-hour time format (e.g., "09:00", "14:30")'',
      ''  - Keep task descriptions exactly as provided'',
      ''  - Provide clear, concise reasons for scheduling'',
      ''  - Ensure all times are within a typical day (06:00 to 22:00)'',
      ''  - Return ONLY the JSON, no additional text'']\<close>

definition newline :: string where
  "newline = [CHR 0x0A]"

text \<open>The template literal: the task list stands on a line of its own, after two spaces.\<close>

definition buildPrompt :: "Task list \<Rightarrow> string" where
  "buildPrompt tasks =
     (let taskList = join newline (map description tasks)
      in join newline promptHead @ newline @ ''  '' @ taskList @ newline @ join newline promptTail)"

subsection \<open>The retry loop\<close>

definition maxRetries :: nat where
  "maxRetries = 3"

definition baseDelay :: int where
  "baseDelay = 1000"

text \<open>
  The outer \<^verbatim>\<open>try\<close> block of one attempt: wait for a slot, call the model, and
  handle what it gave (a throw of the call goes straight to the \<^verbatim>\<open>catch\<close>).
\<close>

definition handleReply :: "env \<Rightarrow> thrown + string \<Rightarrow> thrown + ScheduledTask list" where
  "handleReply e reply =
     (case reply of
        Inl thrown \<Rightarrow> Inl thrown
      | Inr response \<Rightarrow>
          if response = [] then Inl (Gemini noResponse)
          else catchParse (parseSchedule (JSON_parse e) response))"

definition attemptOnce ::
  "env \<Rightarrow> string \<Rightarrow> world \<Rightarrow> ((thrown + ScheduledTask list) \<times> world) option" where
  "attemptOnce e prompt w =
     (case waitForSlot e rateLimit rateWindow w of
        None \<Rightarrow> None
      | Some w1 \<Rightarrow>
          (case callModel e prompt w1 of (reply, w2) \<Rightarrow> Some (handleReply e reply, w2)))"

text \<open>
  The \<^verbatim>\<open>for\<close> loop from \<open>attempt\<close> on, with its \<^verbatim>\<open>catch\<close> and the \<^verbatim>\<open>throw\<close> that
  follows the loop.
\<close>

function attemptLoop ::
  "env \<Rightarrow> string \<Rightarrow> thrown option \<Rightarrow> nat \<Rightarrow> world
     \<Rightarrow> ((thrown + ScheduledTask list) \<times> world) option" where
  "attemptLoop e prompt lastError attempt w =
     (if attempt \<le> maxRetries then
        (case attemptOnce e prompt w of
           None \<Rightarrow> None
         | Some (Inr schedule, w') \<Rightarrow> Some (Inr schedule, w')
         | Some (Inl error, w') \<Rightarrow>
             if \<not> isRetryableError error \<or> attempt = maxRetries
             then (case error of
                     Gemini _ \<Rightarrow> Some (Inl error, w')
                   | Other _ \<Rightarrow> Some (Inl (Gemini unknownError), w'))
             else attemptLoop e prompt (Some error) (Suc attempt)
                    (sleep e (baseDelay * 2 ^ attempt) w'))
      else (case lastError of
              Some error \<Rightarrow> Some (Inl error, w)
            | None \<Rightarrow> Some (Inl (Gemini exhausted), w)))"
  by pat_completeness auto
termination
  by (relation "measure (\<lambda>(e, prompt, lastError, attempt, w). Suc maxRetries - attempt)") auto

declare attemptLoop.simps [simp del]

text \<open>\<^verbatim>\<open>planTasks(tasks)\<close>, with \<open>tasks\<close> a reference to the caller's array.\<close>

definition planTasks ::
  "env \<Rightarrow> ref \<Rightarrow> world \<Rightarrow> ((thrown + ScheduledTask list) \<times> world) option" where
  "planTasks e tasks w =
     (if length (heap w tasks) = 0 then Some (Inl (Gemini noTasks), w)
      else attemptLoop e (buildPrompt (heap w tasks)) None 0 w)"

section \<open>Notions of the specification\<close>

text \<open>
  How the specification writes times: \<open>pad2 n\<close> is \<open>n\<close> in two digits, \<open>written24 h m\<close> the
  ways to write the time \<open>h:m\<close> of the 24-hour clock that the specification admits (two
  digits for the hour, or one when the hour is below ten), and \<open>display12 h m\<close> the same
  time on the 12-hour clock: midnight and noon are hour 12, the hours from 13 on lose 12,
  the others stay, the minutes keep two digits, and the suffix is AM up to hour 11 and PM
  from hour 12.
\<close>

definition pad2 :: "nat \<Rightarrow> string" where
  "pad2 n = [digit_char (n div 10), digit_char (n mod 10)]"

definition hour12 :: "nat \<Rightarrow> nat" where
  "hour12 h = (if h = 0 \<or> h = 12 then 12 else if 13 \<le> h then h - 12 else h)"

definition display12 :: "nat \<Rightarrow> nat \<Rightarrow> string" where
  "display12 h m =
     toString_nat (hour12 h) @ '':'' @ pad2 m @ '' '' @ (if h \<le> 11 then ''AM'' else ''PM'')"

definition written24 :: "nat \<Rightarrow> nat \<Rightarrow> string set" where
  "written24 h m =
     {pad2 h @ '':'' @ pad2 m} \<union> (if h < 10 then {toString_nat h @ '':'' @ pad2 m} else {})"

text \<open>
  A schedule entry is \<open>acceptable\<close> when it has a task, a reason and a time that is a
  string writing a time of the 24-hour clock; it is \<open>malformed\<close> when it is a value with
  fields of which one is missing or empty, or whose time, read as text, writes no such
  time. It is \<open>unreadable\<close> when it is \<^verbatim>\<open>null\<close>, or has a task, a reason and a time
  that is not a string and either cannot be read as text or reads as a time of the
  24-hour clock, such as \<^verbatim>\<open>["09:00"]\<close>. Every entry is one of the three.
\<close>

definition is_time24 :: "string \<Rightarrow> bool" where
  "is_time24 t \<longleftrightarrow> (\<exists>h \<in> {0..<24}. \<exists>m \<in> {0..<60}. t \<in> written24 h m)"

definition acceptable :: "jsval \<Rightarrow> bool" where
  "acceptable item \<longleftrightarrow>
     item \<noteq> JNull \<and> item \<noteq> JUndefined \<and>
     truthy (getProp item ''task'') \<and> truthy (getProp item ''reason'') \<and>
     (case getProp item ''time'' of JStr t \<Rightarrow> is_time24 t | _ \<Rightarrow> False)"

definition malformed :: "jsval \<Rightarrow> bool" where
  "malformed item \<longleftrightarrow>
     item \<noteq> JNull \<and> item \<noteq> JUndefined \<and>
     (\<not> truthy (getProp item ''task'') \<or> \<not> truthy (getProp item ''time'') \<or>
      \<not> truthy (getProp item ''reason'') \<or>
      (case ToString (getProp item ''time'') of Some s \<Rightarrow> \<not> is_time24 s | None \<Rightarrow> False))"

definition unreadable :: "jsval \<Rightarrow> bool" where
  "unreadable item \<longleftrightarrow>
     item = JNull \<or> item = JUndefined \<or>
     truthy (getProp item ''task'') \<and> truthy (getProp item ''time'') \<and>
     truthy (getProp item ''reason'') \<and>
     (case getProp item ''time'' of
        JStr t \<Rightarrow> False
      | v \<Rightarrow> (case ToString v of None \<Rightarrow> True | Some s \<Rightarrow> is_time24 s))"

text \<open>
  The time of an entry as the reply wrote it, its minutes since midnight, and the entry
  as it is returned.
\<close>

definition timeOf :: "jsval \<Rightarrow> string" where
  "timeOf item = (case getProp item ''time'' of JStr t \<Rightarrow> t | _ \<Rightarrow> [])"

definition minutesOf :: "jsval \<Rightarrow> nat" where
  "minutesOf item = (case minutesOfDay (timeOf item) of Some n \<Rightarrow> n | None \<Rightarrow> 0)"

definition scheduled :: "jsval \<Rightarrow> ScheduledTask" where
  "scheduled item =
     \<lparr>task = getProp item ''task'',
      time = (case convertTo12Hour (timeOf item) of Some t12 \<Rightarrow> t12 | None \<Rightarrow> []),
      reason = getProp item ''reason''\<rparr>"

text \<open>The key that the comparator of the sort compares.\<close>

definition sortKey :: "validated \<Rightarrow> nat" where
  "sortKey v = (case minutesOfDay (sortTime v) of Some n \<Rightarrow> n | None \<Rightarrow> 0)"

text \<open>
  The attempts of one call of \<open>planTasks\<close>: \<open>outcome e prompt k\<close> is how the attempt ends
  whose call of the model is the \<open>k\<close>-th, \<open>surfaced\<close> what \<open>planTasks\<close> hands to its caller
  when that attempt is the last, and \<open>retryTrace prompt a n\<close> what \<open>n\<close> attempts from
  attempt \<open>a\<close> on do to the outside: one call of the model each, and between attempt \<open>i\<close>
  and the next a sleep of \<open>1000 * 2 ^ i\<close> milliseconds. A failure is retryable unless it is
  a classified error whose flag says otherwise. \<open>backoffTimed exact a ts\<close> reads the clock
  along such a run, \<open>ts\<close> holding the beginning and the end of each event: the sleep after
  attempt \<open>i\<close> begins when the call of the model of attempt \<open>i\<close> is over, lasts at least
  \<open>1000 * 2 ^ i\<close> milliseconds (exactly that, when \<open>exact\<close>), and the call of the model of
  the next attempt does not begin before it is over.
\<close>

definition outcome :: "env \<Rightarrow> string \<Rightarrow> nat \<Rightarrow> thrown + ScheduledTask list" where
  "outcome e prompt k = handleReply e (generateContent e k prompt)"

definition retryableFailure :: "thrown + ScheduledTask list \<Rightarrow> bool" where
  "retryableFailure r =
     (case r of
        Inl (Gemini g) \<Rightarrow> isRetryable g
      | Inl (Other _) \<Rightarrow> True
      | Inr _ \<Rightarrow> False)"

definition surfaced :: "thrown + ScheduledTask list \<Rightarrow> thrown + ScheduledTask list" where
  "surfaced r = (case r of Inl (Other _) \<Rightarrow> Inl (Gemini unknownError) | _ \<Rightarrow> r)"

fun retryTrace :: "string \<Rightarrow> nat \<Rightarrow> nat \<Rightarrow> event list" where
  "retryTrace prompt a 0 = []"
| "retryTrace prompt a (Suc 0) = [Generate prompt]"
| "retryTrace prompt a (Suc (Suc n)) =
     Generate prompt # Sleep (1000 * 2 ^ a) # retryTrace prompt (Suc a) (Suc n)"

fun backoffTimed :: "bool \<Rightarrow> nat \<Rightarrow> (int \<times> int) list \<Rightarrow> bool" where
  "backoffTimed exact a (g # s # g' # ts) \<longleftrightarrow>
     fst s = snd g \<and>
     (if exact then snd s - fst s = 1000 * 2 ^ a else 1000 * 2 ^ a \<le> snd s - fst s) \<and>
     snd s \<le> fst g' \<and> backoffTimed exact (Suc a) (g' # ts)"
| "backoffTimed exact a ts \<longleftrightarrow> True"

section \<open>Concrete worlds\<close>

text \<open>
  Worlds and environments to run the model in: a caller with one task, a reply in a code
  fence with its parsed value, a model that fails three times before it replies, a model
  whose call throws an error marked as not retryable, a model that is down, and a rate
  limiter that has just recorded three calls.
\<close>

definition world0 :: world where
  "world0 = \<lparr>heap = (\<lambda>r. if r = 0 then [\<lparr>description = ''Write report''\<rparr>] else []),
             clock = 0, requests = [], timers = 0, log = [], stamps = []\<rparr>"

definition replyText :: string where
  \<open>replyText = ''```json {"schedule":[{"task":"Write report","time":"09:00","reason":"r"}]} ```''\<close>

definition replyValue :: jsval where
  "replyValue = JObj [(''schedule'',
     JArr [JObj [(''task'', JStr ''Write report''), (''time'', JStr ''09:00''), (''reason'', JStr ''r'')]])]"

definition env_flaky :: env where
  \<open>env_flaky =
     \<lparr>generateContent = (\<lambda>k prompt. if k < 3 then Inl (Other ''fetch failed'') else Inr replyText),
      latency = (\<lambda>k. 200), lateness = (\<lambda>k. 1),
      JSON_parse = (\<lambda>s. if s = ''{"schedule":[{"task":"Write report","time":"09:00","reason":"r"}]}''
                          then Some replyValue else None)\<rparr>\<close>

definition blocked :: GeminiError where
  "blocked = \<lparr>message = ''blocked'', code = Some ''SAFETY'', isRetryable = False\<rparr>"

definition env_blocked :: env where
  "env_blocked =
     \<lparr>generateContent = (\<lambda>k prompt. Inl (Gemini blocked)),
      latency = (\<lambda>k. 200), lateness = (\<lambda>k. 1), JSON_parse = (\<lambda>s. None)\<rparr>"

definition world_busy :: world where
  "world_busy = \<lparr>heap = (\<lambda>r. []), clock = 7000, requests = [0, 1000, 3000], timers = 0,
                 log = [], stamps = []\<rparr>"

definition env_down :: env where
  "env_down = \<lparr>generateContent = (\<lambda>k prompt. Inl (Other ''fetch failed'')),
               latency = (\<lambda>k. 0), lateness = (\<lambda>k. 0), JSON_parse = (\<lambda>s. None)\<rparr>"

text \<open>
  Replies to validate: entries with a task, a time and a reason, three of them out of
  order, an entry whose time is an array, an entry whose task is empty, a model that
  replies with an empty schedule, a task whose description has a line break, and a list
  of two tasks.
\<close>

definition entry :: "string \<Rightarrow> string \<Rightarrow> jsval" where
  "entry name t = JObj [(''task'', JStr name), (''time'', JStr t), (''reason'', JStr ''r'')]"

definition items3 :: "jsval list" where
  "items3 = [entry ''A'' ''14:30'', entry ''B'' ''06:00'', entry ''C'' ''09:15'']"

definition out3 :: "ScheduledTask list" where
  "out3 = [\<lparr>task = JStr ''B'', time = ''6:00 AM'', reason = JStr ''r''\<rparr>,
           \<lparr>task = JStr ''C'', time = ''9:15 AM'', reason = JStr ''r''\<rparr>,
           \<lparr>task = JStr ''A'', time = ''2:30 PM'', reason = JStr ''r''\<rparr>]"

definition array_time :: jsval where
  "array_time =
     JObj [(''task'', JStr ''A''), (''time'', JArr [JStr ''09:00'']), (''reason'', JStr ''r'')]"

definition no_task :: jsval where
  "no_task = JObj [(''task'', JStr ''''), (''time'', JStr ''09:00''), (''reason'', JStr ''r'')]"

definition env_idle :: env where
  \<open>env_idle =
     \<lparr>generateContent = (\<lambda>k prompt. Inr ''{"schedule": []}''),
      latency = (\<lambda>k. 200), lateness = (\<lambda>k. 1),
      JSON_parse = (\<lambda>s. if s = ''{"schedule": []}'' then Some (JObj [(''schedule'', JArr [])])
                          else None)\<rparr>\<close>

definition line_break_task :: Task where
  "line_break_task = \<lparr>description = [CHR ''a'', CHR 0x0A, CHR ''b'']\<rparr>"

definition two_tasks :: "Task list" where
  "two_tasks = [\<lparr>description = ''Write report''\<rparr>, \<lparr>description = ''Call Sam''\<rparr>]"

section \<open>Digits and numerals\<close>

lemma of_char_digit_char: "n < 10 \<Longrightarrow> (of_char (digit_char n) :: nat) = 48 + n"
  by (simp add: digit_char_def)

lemma digit_char_0: "digit_char 0 = CHR ''0''"
  by (rule of_char_eqI [where ?'a = nat]) (simp add: of_char_digit_char)

lemma digit_val_char: "n < 10 \<Longrightarrow> digit_val (digit_char n) = n"
  by (simp add: digit_val_def of_char_digit_char)

lemma is_digit_char: "n < 10 \<Longrightarrow> is_digit (digit_char n)"
  by (simp add: is_digit_def in_range_def of_char_digit_char)

lemma is_digit_bounds: "is_digit c \<longleftrightarrow> 48 \<le> (of_char c :: nat) \<and> (of_char c :: nat) \<le> 57"
  by (simp add: is_digit_def in_range_def)

lemma is_digit_val: "is_digit c \<Longrightarrow> digit_val c < 10"
  unfolding is_digit_bounds digit_val_def by linarith

lemma digit_char_val: "is_digit c \<Longrightarrow> digit_char (digit_val c) = c"
  by (rule of_char_eqI [where ?'a = nat]) 
     (simp add: is_digit_val of_char_digit_char, simp add: is_digit_bounds digit_val_def)

lemma in_range_char: "n < 10 \<Longrightarrow> in_range (CHR ''0'') hi (digit_char n) \<longleftrightarrow> 48 + n \<le> (of_char hi :: nat)"
  by (simp add: in_range_def of_char_digit_char)

lemma digit_char_not_colon: "n < 10 \<Longrightarrow> digit_char n \<noteq> CHR '':''"
proof
  assume "n < 10" "digit_char n = CHR '':''"
  then have "(of_char (digit_char n)::nat) = of_char (CHR '':'')" by simp
  with \<open>n < 10\<close> show False by (simp add: of_char_digit_char)
qed

lemma toString_nat_small: "n < 10 \<Longrightarrow> toString_nat n = [digit_char n]"
  by (simp add: toString_nat.simps)

lemma toString_nat_two: "10 \<le> n \<Longrightarrow> n < 100 \<Longrightarrow> toString_nat n = pad2 n"
  by (subst toString_nat.simps) (simp add: toString_nat_small pad2_def)

lemma padStart_toString:
  assumes "n < 100" shows "padStart 2 (CHR ''0'') (toString_nat n) = pad2 n"
proof (cases "n < 10")
  case True
  then show ?thesis by (simp add: padStart_def toString_nat_small pad2_def digit_char_0)
next
  case False
  with \<open>n < 100\<close> show ?thesis by (simp add: padStart_def toString_nat_two pad2_def)
qed

lemma mem_rests_Range: "t \<in> set (rests (Range lo hi) s) \<longleftrightarrow> (\<exists>c. s = c # t \<and> in_range lo hi c)"
  by (cases s) auto

lemma mem_rests_Lit: "t \<in> set (rests (Lit a) s) \<longleftrightarrow> s = a # t"
  by (cases s) auto

lemma mem_rests_Seq:
  "t \<in> set (rests (Seq r1 r2) s) \<longleftrightarrow> (\<exists>u. u \<in> set (rests r1 s) \<and> t \<in> set (rests r2 u))"
  by auto

lemma mem_rests_Alt:
  "t \<in> set (rests (Alt r1 r2) s) \<longleftrightarrow> t \<in> set (rests r1 s) \<or> t \<in> set (rests r2 s)"
  by auto

lemma mem_rests_Opt: "t \<in> set (rests (Opt r) s) \<longleftrightarrow> t \<in> set (rests r s) \<or> t = s"
  by auto

lemmas mem_rests = mem_rests_Range mem_rests_Lit mem_rests_Seq mem_rests_Alt mem_rests_Opt

lemma timeRegex_test_chars:
  "timeRegex_test s \<longleftrightarrow>
     (\<exists>a c d. s = [a, CHR '':'', c, d] \<and> is_digit a \<and> in_range (CHR ''0'') (CHR ''5'') c \<and> is_digit d) \<or>
     (\<exists>a b c d. s = [a, b, CHR '':'', c, d] \<and>
        (in_range (CHR ''0'') (CHR ''1'') a \<and> is_digit b \<or> a = CHR ''2'' \<and> in_range (CHR ''0'') (CHR ''3'') b) \<and>
        in_range (CHR ''0'') (CHR ''5'') c \<and> is_digit d)"
  unfolding timeRegex_test_def timeRegex_def is_digit_def mem_rests
  by auto

lemma is_digit_iff: "is_digit c \<longleftrightarrow> (\<exists>n<10. c = digit_char n)"
  using digit_char_val is_digit_val is_digit_char by metis

lemma in_range_0_digit:
  assumes "n < 10" "k < 10"
  shows "in_range (CHR ''0'') (digit_char k) (digit_char n) \<longleftrightarrow> n \<le> k"
  using assms by (simp add: in_range_def of_char_digit_char)

lemma digit_chars: "CHR ''1'' = digit_char 1" "CHR ''2'' = digit_char 2" "CHR ''3'' = digit_char 3"
  "CHR ''5'' = digit_char 5" "CHR ''9'' = digit_char 9"
  by (rule of_char_eqI [where ?'a = nat], simp add: of_char_digit_char)+

lemma in_range_0_iff:
  assumes "k < 10"
  shows "in_range (CHR ''0'') (digit_char k) c \<longleftrightarrow> (\<exists>n\<le>k. c = digit_char n)"
proof
  assume r: "in_range (CHR ''0'') (digit_char k) c"
  with assms have "is_digit c" by (simp add: is_digit_bounds in_range_def of_char_digit_char)
  then obtain n where n: "n < 10" "c = digit_char n" by (auto simp: is_digit_iff)
  with r assms show "\<exists>n\<le>k. c = digit_char n" by (auto simp: in_range_0_digit)
next
  assume "\<exists>n\<le>k. c = digit_char n"
  with assms show "in_range (CHR ''0'') (digit_char k) c" by (auto simp: in_range_0_digit)
qed

lemma timeRegex_test_digits:
  "timeRegex_test s \<longleftrightarrow>
     (\<exists>a c d. a < 10 \<and> c \<le> 5 \<and> d < 10 \<and> s = [digit_char a, CHR '':'', digit_char c, digit_char d]) \<or>
     (\<exists>a b c d. (a \<le> 1 \<and> b < 10 \<or> a = 2 \<and> b \<le> 3) \<and> c \<le> 5 \<and> d < 10 \<and>
        s = [digit_char a, digit_char b, CHR '':'', digit_char c, digit_char d])"
  (is "_ \<longleftrightarrow> ?A \<or> ?B")
proof -
  have r1: "in_range (CHR ''0'') (CHR ''1'') c \<longleftrightarrow> (\<exists>n\<le>1. c = digit_char n)" for c
    unfolding digit_chars by (rule in_range_0_iff) simp
  have r3: "in_range (CHR ''0'') (CHR ''3'') c \<longleftrightarrow> (\<exists>n\<le>3. c = digit_char n)" for c
    unfolding digit_chars by (rule in_range_0_iff) simp
  have r5: "in_range (CHR ''0'') (CHR ''5'') c \<longleftrightarrow> (\<exists>n\<le>5. c = digit_char n)" for c
    unfolding digit_chars by (rule in_range_0_iff) simp
  have A: "(\<exists>a c d. s = [a, CHR '':'', c, d] \<and> is_digit a \<and> in_range (CHR ''0'') (CHR ''5'') c \<and> is_digit d) \<longleftrightarrow> ?A"
    unfolding r5 is_digit_iff by blast
  have B: "(\<exists>a b c d. s = [a, b, CHR '':'', c, d] \<and>
        (in_range (CHR ''0'') (CHR ''1'') a \<and> is_digit b \<or> a = CHR ''2'' \<and> in_range (CHR ''0'') (CHR ''3'') b) \<and>
        in_range (CHR ''0'') (CHR ''5'') c \<and> is_digit d) \<longleftrightarrow> ?B"
    unfolding r1 r3 r5 is_digit_iff digit_chars(2) by blast
  show ?thesis unfolding timeRegex_test_chars A B ..
qed

lemma timeRegex_test_iff:
  "timeRegex_test s \<longleftrightarrow> (\<exists>h m. h < 24 \<and> m < 60 \<and> s \<in> written24 h m)"
proof
  assume "timeRegex_test s"
  then consider
      (one) a c d where "a < 10" "c \<le> 5" "d < 10" "s = [digit_char a, CHR '':'', digit_char c, digit_char d]"
    | (two) a b c d where "a \<le> 1 \<and> b < 10 \<or> a = 2 \<and> b \<le> 3" "c \<le> 5" "d < 10"
        "s = [digit_char a, digit_char b, CHR '':'', digit_char c, digit_char d]"
    unfolding timeRegex_test_digits by blast
  then show "\<exists>h m. h < 24 \<and> m < 60 \<and> s \<in> written24 h m"
  proof cases
    case one
    let ?m = "10 * c + d"
    from one have "?m < 60" "?m div 10 = c" "?m mod 10 = d" by simp_all
    with one have "a < 24 \<and> ?m < 60 \<and> s \<in> written24 a ?m"
      by (simp add: written24_def pad2_def toString_nat_small)
    then show ?thesis by blast
  next
    case two
    let ?h = "10 * a + b" and ?m = "10 * c + d"
    from two have "?m < 60" "?m div 10 = c" "?m mod 10 = d" by simp_all
    moreover from two(1) have "?h < 24" "?h div 10 = a" "?h mod 10 = b" by auto
    ultimately have "?h < 24 \<and> ?m < 60 \<and> s \<in> written24 ?h ?m"
      using two(4) by (simp add: written24_def pad2_def)
    then show ?thesis by blast
  qed
next
  assume "\<exists>h m. h < 24 \<and> m < 60 \<and> s \<in> written24 h m"
  then obtain h m where hm: "h < 24" "m < 60" "s \<in> written24 h m" by blast
  from hm(2) have m: "m div 10 \<le> 5" "m mod 10 < 10" by simp_all
  from hm(3) consider (long) "s = pad2 h @ '':'' @ pad2 m" | (short) "h < 10" "s = toString_nat h @ '':'' @ pad2 m"
    by (auto simp: written24_def split: if_splits)
  then show "timeRegex_test s"
  proof cases
    case long
    from hm(1) have "h div 10 \<le> 1 \<and> h mod 10 < 10 \<or> h div 10 = 2 \<and> h mod 10 \<le> 3" by presburger
    with m long show ?thesis unfolding timeRegex_test_digits pad2_def
      by (intro disjI2 exI [of _ "h div 10"] exI [of _ "h mod 10"] exI [of _ "m div 10"]
            exI [of _ "m mod 10"]) simp
  next
    case short
    with m show ?thesis unfolding timeRegex_test_digits pad2_def
      by (intro disjI1 exI [of _ h] exI [of _ "m div 10"] exI [of _ "m mod 10"])
         (simp add: toString_nat_small)
  qed
qed

lemma split_colon_digits:
  assumes "\<forall>c \<in> set xs. c \<noteq> CHR '':''" "\<forall>c \<in> set ys. c \<noteq> CHR '':''"
  shows "split (CHR '':'') (xs @ CHR '':'' # ys) = [xs, ys]"
proof -
  have a: "split (CHR '':'') ys = [ys]" using assms(2) by (induction ys) auto
  show ?thesis using assms(1) by (induction xs) (auto simp: a)
qed

lemma Number_digit: "a < 10 \<Longrightarrow> Number [digit_char a] = Some a"
  by (simp add: Number_def is_digit_char digit_val_char)

lemma Number_pad2: "n < 100 \<Longrightarrow> Number (pad2 n) = Some n"
  by (simp add: Number_def pad2_def is_digit_char digit_val_char)

lemma set_pad2: "n < 100 \<Longrightarrow> \<forall>c \<in> set (pad2 n). c \<noteq> CHR '':''"
  by (simp add: pad2_def digit_char_not_colon)

lemma hour12_mod:
  assumes "h < 24"
  shows "(if h mod 12 = 0 then 12 else h mod 12) = hour12 h"
proof (cases "h < 12")
  case True
  then have "h mod 12 = h" by simp
  with True show ?thesis by (simp add: hour12_def)
next
  case False
  with assms have "h mod 12 = h - 12" by (simp add: le_mod_geq)
  with False assms show ?thesis by (auto simp: hour12_def)
qed

lemma convertTo12Hour_written24:
  assumes "h < 24" "m < 60" "t \<in> written24 h m"
  shows "convertTo12Hour t = Some (display12 h m)"
proof -
  have "\<exists>hs. t = hs @ CHR '':'' # pad2 m \<and> Number hs = Some h \<and> (\<forall>c \<in> set hs. c \<noteq> CHR '':'')"
  proof (cases "t = pad2 h @ '':'' @ pad2 m")
    case True
    from assms(1) have "h < 100" by simp
    with True show ?thesis by (intro exI [of _ "pad2 h"]) (simp add: Number_pad2 set_pad2)
  next
    case False
    with assms(3) have "h < 10" "t = [digit_char h] @ '':'' @ pad2 m"
      by (auto simp: written24_def toString_nat_small split: if_splits)
    then show ?thesis
      by (intro exI [of _ "[digit_char h]"]) (simp add: Number_digit digit_char_not_colon)
  qed
  then obtain hs where t: "t = hs @ CHR '':'' # pad2 m" and hs: "Number hs = Some h"
    "\<forall>c \<in> set hs. c \<noteq> CHR '':''" by blast
  from assms(2) have "split (CHR '':'') t = [hs, pad2 m]"
    unfolding t by (intro split_colon_digits hs set_pad2) simp
  with hs(1) assms(1,2) show ?thesis
    by (simp add: convertTo12Hour_def Number_pad2 padStart_toString display12_def hour12_mod
          not_le [symmetric] Let_def)
qed


section \<open>The 12-hour clock\<close>

text \<open>
  C3: a validated time string that writes hour \<open>h\<close> (0 to 23) and minute \<open>m\<close> (0 to 59) is
  converted to the 12-hour form: hours 0 and 12 are shown as 12, hours 13 to 23 lose 12,
  hours 1 to 11 stay, the minutes keep two digits, the suffix is AM for hours 0 to 11 and
  PM for hours 12 to 23. In particular 00:00 becomes 12:00 AM, 12:00 becomes 12:00 PM and
  23:59 becomes 11:59 PM.
\<close>

theorem convertTo12Hour_display:
  "(h < 24 \<and> m < 60 \<and> t \<in> written24 h m \<longrightarrow>
      timeRegex_test t \<and> convertTo12Hour t = Some (display12 h m)) \<and>
   convertTo12Hour ''00:00'' = Some ''12:00 AM'' \<and>
   convertTo12Hour ''12:00'' = Some ''12:00 PM'' \<and>
   convertTo12Hour ''23:59'' = Some ''11:59 PM''"
proof -
  have "convertTo12Hour ''00:00'' = Some ''12:00 AM''" by code_simp
  moreover have "convertTo12Hour ''12:00'' = Some ''12:00 PM''" by code_simp
  moreover have "convertTo12Hour ''23:59'' = Some ''11:59 PM''" by code_simp
  ultimately show ?thesis
    using convertTo12Hour_written24 [of h m t] timeRegex_test_iff [of t] by blast
qed

theorem convertTo12Hour_display_witness:
  "(13::nat) < 24 \<and> (5::nat) < 60 \<and> ''13:05'' \<in> written24 13 5 \<and> timeRegex_test ''13:05'' \<and>
   convertTo12Hour ''13:05'' = Some (display12 13 5) \<and> display12 13 5 = ''1:05 PM''"
proof -
  have w: "''13:05'' \<in> written24 13 5" by code_simp
  have d: "display12 13 5 = ''1:05 PM''" by code_simp
  from w d show ?thesis using convertTo12Hour_display [of 13 5 "''13:05''"] by simp
qed

section \<open>The rate limiter\<close>

lemma filter_window_mono:
  assumes "(c::int) \<le> c'"
  shows "filter (\<lambda>t. c' - t < win) (filter (\<lambda>t. c - t < win) rs) = filter (\<lambda>t. c' - t < win) rs"
proof -
  have "(c' - t < win \<and> c - t < win) = (c' - t < win)" for t using assms by auto
  then show ?thesis by (simp add: conj_commute)
qed

lemma waitForSlot_returns:
  assumes "1 \<le> limit"
  shows "\<exists>w'. waitForSlot e limit win w = Some w' \<and> heap w' = heap w \<and> log w' = log w \<and>
           stamps w' = stamps w \<and> clock w \<le> clock w' \<and>
           requests w' = filter (\<lambda>t. clock w' - t < win) (requests w) @ [clock w'] \<and>
           int (length (filter (\<lambda>t. clock w' - t < win) (requests w))) < limit"
proof (induction "length (filter (\<lambda>t. clock w - t < win) (requests w))" arbitrary: w rule: less_induct)
  case less
  let ?kept = "filter (\<lambda>t. clock w - t < win) (requests w)"
  show ?case
  proof (cases "limit \<le> int (length ?kept)")
    case False
    then have "waitForSlot e limit win w = Some (w\<lparr>requests := ?kept @ [clock w]\<rparr>)"
      by (subst waitForSlot.simps) (simp add: Let_def)
    with False show ?thesis by simp
  next
    case True
    with assms obtain oldest rest where kept: "?kept = oldest # rest"
      by (cases ?kept) auto
    define w1 where "w1 = setTimeout e (win - (clock w - oldest)) (w\<lparr>requests := ?kept\<rparr>)"
    from True have step: "waitForSlot e limit win w = waitForSlot e limit win w1"
      unfolding w1_def by (subst waitForSlot.simps) (simp add: Let_def kept)
    have "oldest \<in> set ?kept" by (simp add: kept)
    then have "clock w - oldest < win" by simp
    then have late: "oldest + win \<le> clock w1" and mono: "clock w \<le> clock w1"
      by (simp_all add: w1_def setTimeout_def)
    have frame: "requests w1 = oldest # rest" "heap w1 = heap w" "log w1 = log w"
      "stamps w1 = stamps w"
      by (simp_all add: w1_def setTimeout_def kept)
    from late have "filter (\<lambda>t. clock w1 - t < win) (requests w1) = filter (\<lambda>t. clock w1 - t < win) rest"
      unfolding frame by simp
    then have "length (filter (\<lambda>t. clock w1 - t < win) (requests w1)) < length ?kept"
      unfolding kept by (simp add: le_imp_less_Suc)
    from less [OF this] obtain w' where w': "waitForSlot e limit win w1 = Some w'"
      "heap w' = heap w1" "log w' = log w1" "clock w1 \<le> clock w'" "stamps w' = stamps w1"
      "requests w' = filter (\<lambda>t. clock w' - t < win) (requests w1) @ [clock w']"
      "int (length (filter (\<lambda>t. clock w' - t < win) (requests w1))) < limit"
      by blast
    from mono w'(4) have le: "clock w \<le> clock w'" by simp
    have "filter (\<lambda>t. clock w' - t < win) (requests w1) = filter (\<lambda>t. clock w' - t < win) (requests w)"
      unfolding frame(1) kept [symmetric] by (rule filter_window_mono [OF le])
    with w' le step frame show ?thesis by simp
  qed
qed


section \<open>The retry loop\<close>

lemma generated_append: "generated (xs @ ys) = generated xs @ generated ys"
  by (induction xs rule: generated.induct) simp_all

lemma generated_retryTrace: "generated (retryTrace p a n) = replicate n p"
  by (induction p a n rule: retryTrace.induct) simp_all

lemma retryTrace_Nil: "retryTrace p a n = [] \<longleftrightarrow> n = 0"
  by (induction p a n rule: retryTrace.induct) simp_all

lemma last_retryTrace: "last (retryTrace p a (Suc n)) = Generate p"
  by (induction p a "Suc n" arbitrary: n rule: retryTrace.induct) (simp_all add: retryTrace_Nil)

lemma retryTrace_Suc:
  "1 \<le> n \<Longrightarrow> retryTrace p a (Suc n) = Generate p # Sleep (1000 * 2 ^ a) # retryTrace p (Suc a) n"
  by (cases n) simp_all

lemma retryableFailure_iff:
  "retryableFailure r \<longleftrightarrow> (\<exists>err. r = Inl err \<and> isRetryableError err)"
  by (auto simp: retryableFailure_def isRetryableError_def split: sum.splits thrown.splits)

lemma backoffTimed_step:
  assumes "ts \<noteq> []" "c2 \<le> fst (hd ts)" "backoffTimed exact (Suc a) ts"
    and "if exact then c2 - c1 = 1000 * 2 ^ a else 1000 * 2 ^ a \<le> c2 - c1"
  shows "backoffTimed exact a ((c, c1) # (c1, c2) # ts)"
  using assms by (cases ts) simp_all

lemma length_retryTrace: "length (retryTrace p a (Suc n)) = Suc (2 * n)"
  by (induction p a "Suc n" arbitrary: n rule: retryTrace.induct) simp_all

lemma attemptOnce_run:
  "\<exists>w' c. attemptOnce e p w = Some (outcome e p (length (generated (log w))), w') \<and>
         heap w' = heap w \<and> log w' = log w @ [Generate p] \<and>
         clock w \<le> c \<and> c \<le> clock w' \<and> stamps w' = stamps w @ [(c, clock w')]"
proof -
  have "(1::int) \<le> rateLimit" by (simp add: rateLimit_def)
  from waitForSlot_returns [OF this, of e rateWindow w]
  obtain w1 where "waitForSlot e rateLimit rateWindow w = Some w1" "heap w1 = heap w" "log w1 = log w"
    "stamps w1 = stamps w" "clock w \<le> clock w1"
    by blast
  then show ?thesis
    by (intro exI [of _ "snd (callModel e p w1)"] exI [of _ "clock w1"])
       (simp add: attemptOnce_def callModel_def outcome_def Let_def)
qed

lemma sleep_run:
  "heap (sleep e ms w) = heap w \<and> log (sleep e ms w) = log w @ [Sleep ms] \<and>
   stamps (sleep e ms w) = stamps w @ [(clock w, clock (sleep e ms w))] \<and>
   clock (sleep e ms w) = clock w + max 0 ms + int (lateness e (timers w))"
  by (simp add: sleep_def setTimeout_def Let_def)

lemma attemptLoop_run:
  assumes "a \<le> 3"
  shows "\<exists>n r w' ts. attemptLoop e p le a w = Some (r, w') \<and> 1 \<le> n \<and> a + n \<le> 4 \<and>
           heap w' = heap w \<and> log w' = log w @ retryTrace p a n \<and>
           (\<forall>i<n - 1. retryableFailure (outcome e p (length (generated (log w)) + i))) \<and>
           (a + n < 4 \<longrightarrow> \<not> retryableFailure (outcome e p (length (generated (log w)) + (n - 1)))) \<and>
           r = surfaced (outcome e p (length (generated (log w)) + (n - 1))) \<and>
           stamps w' = stamps w @ ts \<and> length ts = length (retryTrace p a n) \<and>
           clock w \<le> fst (hd ts) \<and> snd (last ts) = clock w' \<and> backoffTimed False a ts \<and>
           ((\<forall>k. lateness e k = 0) \<longrightarrow> backoffTimed True a ts)"
  using assms
proof (induction "3 - a" arbitrary: a w le)
  case 0
  then have a: "a = 3" by simp
  obtain w' c where w': "attemptOnce e p w = Some (outcome e p (length (generated (log w))), w')"
    "heap w' = heap w" "log w' = log w @ [Generate p]"
    "clock w \<le> c" "stamps w' = stamps w @ [(c, clock w')]"
    using attemptOnce_run by blast
  have "attemptLoop e p le a w = Some (surfaced (outcome e p (length (generated (log w)))), w')"
    by (subst attemptLoop.simps)
       (simp add: w' a maxRetries_def surfaced_def split: sum.splits thrown.splits)
  with w' a show ?case by (intro exI [of _ 1] exI [of _ _] exI [of _ w'] exI [of _ "[(c, clock w')]"]) simp
next
  case (Suc d)
  let ?k = "length (generated (log w))"
  obtain w1 c where w1: "attemptOnce e p w = Some (outcome e p ?k, w1)"
    "heap w1 = heap w" "log w1 = log w @ [Generate p]"
    "clock w \<le> c" "stamps w1 = stamps w @ [(c, clock w1)]"
    using attemptOnce_run by blast
  from Suc.hyps(2) have a: "a < 3" by simp
  show ?case
  proof (cases "retryableFailure (outcome e p ?k)")
    case False
    with a have "attemptLoop e p le a w = Some (surfaced (outcome e p ?k), w1)"
      by (subst attemptLoop.simps)
         (auto simp: w1 maxRetries_def surfaced_def retryableFailure_def isRetryableError_def
            split: sum.splits thrown.splits)
    with w1 a False show ?thesis
      by (intro exI [of _ 1] exI [of _ _] exI [of _ w1] exI [of _ "[(c, clock w1)]"]) simp
  next
    case True
    then obtain err where err: "outcome e p ?k = Inl err" "isRetryableError err"
      by (auto simp: retryableFailure_iff)
    define w2 where "w2 = sleep e (baseDelay * 2 ^ a) w1"
    have w2: "heap w2 = heap w" "log w2 = log w @ [Generate p, Sleep (1000 * 2 ^ a)]"
      "stamps w2 = stamps w @ [(c, clock w1), (clock w1, clock w2)]"
      "clock w2 = clock w1 + 1000 * 2 ^ a + int (lateness e (timers w1))"
      using sleep_run [of e "baseDelay * 2 ^ a" w1] by (simp_all add: w2_def w1 baseDelay_def)
    from a err have step: "attemptLoop e p le a w = attemptLoop e p (Some err) (Suc a) w2"
      by (subst attemptLoop.simps) (simp add: w1 maxRetries_def w2_def)
    have k2: "length (generated (log w2)) = Suc ?k" by (simp add: w2 generated_append)
    from Suc.hyps(2) a have "d = 3 - Suc a" "Suc a \<le> 3" by simp_all
    from Suc.hyps(1) [OF this, of "Some err" w2] obtain n r w' ts where n:
      "attemptLoop e p (Some err) (Suc a) w2 = Some (r, w')" "1 \<le> n" "Suc a + n \<le> 4"
      "heap w' = heap w2" "log w' = log w2 @ retryTrace p (Suc a) n"
      "\<forall>i<n - 1. retryableFailure (outcome e p (Suc ?k + i))"
      "Suc a + n < 4 \<longrightarrow> \<not> retryableFailure (outcome e p (Suc ?k + (n - 1)))"
      "r = surfaced (outcome e p (Suc ?k + (n - 1)))"
      and ts: "stamps w' = stamps w2 @ ts" "length ts = length (retryTrace p (Suc a) n)"
      "clock w2 \<le> fst (hd ts)" "backoffTimed False (Suc a) ts"
      "(\<forall>k. lateness e k = 0) \<longrightarrow> backoffTimed True (Suc a) ts" "snd (last ts) = clock w'"
      unfolding k2 by blast
    have all: "\<forall>i<Suc n - 1. retryableFailure (outcome e p (?k + i))"
    proof (intro allI impI)
      fix i assume "i < Suc n - 1"
      show "retryableFailure (outcome e p (?k + i))"
      proof (cases i)
        case 0
        with True show ?thesis by simp
      next
        case (Suc j)
        with \<open>i < Suc n - 1\<close> n(6) show ?thesis by simp
      qed
    qed
    from n(2) have idx: "Suc ?k + (n - 1) = ?k + (Suc n - 1)" by simp
    let ?ts = "(c, clock w1) # (clock w1, clock w2) # ts"
    from n(2) ts(2) have ne: "ts \<noteq> []" by (cases n) (auto simp: length_retryTrace)
    have t1: "backoffTimed False a ?ts"
      by (rule backoffTimed_step [OF ne ts(3,4)]) (simp add: w2(4))
    have t2: "backoffTimed True a ?ts" if "\<forall>k. lateness e k = 0"
      using that ts(5) by (intro backoffTimed_step [OF ne ts(3)]) (simp_all add: w2(4))
    have t3: "stamps w' = stamps w @ ?ts" by (simp add: ts(1) w2(3))
    have t4: "length ?ts = length (retryTrace p a (Suc n))"
      using n(2) ts(2) by (simp add: retryTrace_Suc)
    have t5: "clock w \<le> fst (hd ?ts)" using w1(4) by simp
    have t6: "snd (last ?ts) = clock w'" using ne ts(6) by simp
    have main: "attemptLoop e p le a w = Some (r, w') \<and> 1 \<le> Suc n \<and> a + Suc n \<le> 4 \<and>
           heap w' = heap w \<and> log w' = log w @ retryTrace p a (Suc n) \<and>
           (\<forall>i<Suc n - 1. retryableFailure (outcome e p (?k + i))) \<and>
           (a + Suc n < 4 \<longrightarrow> \<not> retryableFailure (outcome e p (?k + (Suc n - 1)))) \<and>
           r = surfaced (outcome e p (?k + (Suc n - 1)))"
      using n step w2(1,2) all unfolding idx by (simp add: retryTrace_Suc)
    from main t1 t2 t3 t4 t5 t6 show ?thesis
      by (intro exI [of _ "Suc n"] exI [of _ r] exI [of _ w'] exI [of _ ?ts]) blast
  qed
qed

lemma planTasks_run:
  assumes "heap w tasks \<noteq> []"
  shows "\<exists>n r w' ts. planTasks e tasks w = Some (r, w') \<and> 1 \<le> n \<and> n \<le> 4 \<and>
           heap w' = heap w \<and> log w' = log w @ retryTrace (buildPrompt (heap w tasks)) 0 n \<and>
           (\<forall>i<n - 1. retryableFailure
                         (outcome e (buildPrompt (heap w tasks)) (length (generated (log w)) + i))) \<and>
           (n < 4 \<longrightarrow> \<not> retryableFailure
                         (outcome e (buildPrompt (heap w tasks)) (length (generated (log w)) + (n - 1)))) \<and>
           r = surfaced (outcome e (buildPrompt (heap w tasks)) (length (generated (log w)) + (n - 1))) \<and>
           stamps w' = stamps w @ ts \<and>
           length ts = length (retryTrace (buildPrompt (heap w tasks)) 0 n) \<and>
           clock w \<le> fst (hd ts) \<and> snd (last ts) = clock w' \<and> backoffTimed False 0 ts \<and>
           ((\<forall>k. lateness e k = 0) \<longrightarrow> backoffTimed True 0 ts)"
  using assms attemptLoop_run [of 0 e "buildPrompt (heap w tasks)" None w]
  by (simp add: planTasks_def)

lemma planTasks_stops:
  assumes "heap w tasks \<noteq> []" and "p = buildPrompt (heap w tasks)"
    and "k = length (generated (log w))"
    and "i \<le> 3" and "\<forall>j<i. retryableFailure (outcome e p (k + j))"
    and "\<not> retryableFailure (outcome e p (k + i))"
  shows "\<exists>w'. planTasks e tasks w = Some (surfaced (outcome e p (k + i)), w') \<and>
           log w' = log w @ retryTrace p 0 (Suc i)"
proof -
  from planTasks_run [OF assms(1), of e] obtain n r w' where run:
    "planTasks e tasks w = Some (r, w')" "1 \<le> n" "n \<le> 4"
    "log w' = log w @ retryTrace p 0 n"
    "\<forall>i<n - 1. retryableFailure (outcome e p (k + i))"
    "n < 4 \<longrightarrow> \<not> retryableFailure (outcome e p (k + (n - 1)))"
    "r = surfaced (outcome e p (k + (n - 1)))"
    unfolding assms(2,3) by blast
  have "n - 1 = i"
  proof (rule ccontr)
    assume "n - 1 \<noteq> i"
    then consider "n - 1 < i" | "i < n - 1" by linarith
    then show False
    proof cases
      case 1
      with assms(4,5) run(6) show False by auto
    next
      case 2
      with run(5) assms(6) show False by blast
    qed
  qed
  with run(2) have "n = Suc i" by simp
  with run(1,4,7) show ?thesis by simp
qed

lemma planTasks_Inr:
  assumes "planTasks e tasks w = Some (Inr out, w')" and "p = buildPrompt (heap w tasks)"
    and "k = length (generated (log w))"
  shows "\<exists>i response. i \<le> 3 \<and> log w' = log w @ retryTrace p 0 (Suc i) \<and>
           generateContent e (k + i) p = Inr response \<and> handleReply e (Inr response) = Inr out"
proof -
  from assms(1) have ne: "heap w tasks \<noteq> []"
    by (auto simp: planTasks_def split: if_splits)
  from planTasks_run [OF ne, of e] obtain n r w2 where run0:
    "planTasks e tasks w = Some (r, w2)" "1 \<le> n" "n \<le> 4"
    "log w2 = log w @ retryTrace p 0 n" "r = surfaced (outcome e p (k + (n - 1)))"
    unfolding assms(2,3) by blast
  from run0(1) assms(1) have "r = Inr out" "w2 = w'" by simp_all
  with run0 have run: "1 \<le> n" "n \<le> 4" "log w' = log w @ retryTrace p 0 n"
    "Inr out = surfaced (outcome e p (k + (n - 1)))" by simp_all
  from run(4) have o: "outcome e p (k + (n - 1)) = Inr out"
    by (auto simp: surfaced_def split: sum.splits thrown.splits)
  then obtain response where r: "generateContent e (k + (n - 1)) p = Inr response"
    by (cases "generateContent e (k + (n - 1)) p") (auto simp: outcome_def handleReply_def)
  with o have "handleReply e (Inr response) = Inr out" by (simp add: outcome_def)
  with r run(1,2,3) show ?thesis
    by (intro exI [of _ "n - 1"] exI [of _ response]) simp
qed

section \<open>The claims about the rate limiter and the retry loop\<close>

text \<open>
  C7: the rate limiter with a limit of at least one, one caller at a time, and timers
  that fire on time or late, never early. A call of \<open>waitForSlot\<close> returns, and
  when it does it has recorded the time at which it went on, after the requests that were
  still inside the window at that time, of which there were fewer than the limit: so at
  most \<open>limit\<close> timestamps remain, and nobody goes on while the count after eviction is at
  capacity. When \<open>limit\<close> calls came before, the next one goes on only when at least
  \<open>windowMs\<close> has passed since the oldest of them. And at capacity the call equals the
  call made afresh after the wait: the check is made again from scratch.
\<close>

theorem waitForSlot_limit:
  assumes "1 \<le> limit" and "kept = filter (\<lambda>t. clock w - t < windowMs) (requests w)"
  shows "\<exists>w'. waitForSlot e limit windowMs w = Some w' \<and> clock w \<le> clock w' \<and>
           requests w' = filter (\<lambda>t. clock w' - t < windowMs) (requests w) @ [clock w'] \<and>
           int (length (filter (\<lambda>t. clock w' - t < windowMs) (requests w))) < limit \<and>
           int (length (requests w')) \<le> limit \<and>
           (\<forall>old recent. requests w = old @ recent \<and> int (length recent) = limit \<longrightarrow>
              Min (set recent) + windowMs \<le> clock w') \<and>
           (limit \<le> int (length kept) \<longrightarrow>
              waitForSlot e limit windowMs w =
                waitForSlot e limit windowMs
                  (setTimeout e (windowMs - (clock w - hd kept)) (w\<lparr>requests := kept\<rparr>)))"
proof -
  from waitForSlot_returns [OF assms(1), of e windowMs w] obtain w' where w':
    "waitForSlot e limit windowMs w = Some w'" "clock w \<le> clock w'"
    "requests w' = filter (\<lambda>t. clock w' - t < windowMs) (requests w) @ [clock w']"
    "int (length (filter (\<lambda>t. clock w' - t < windowMs) (requests w))) < limit"
    by blast
  have delayed: "Min (set recent) + windowMs \<le> clock w'"
    if "requests w = old @ recent" "int (length recent) = limit" for old recent
  proof -
    from w'(4) that have "length (filter (\<lambda>t. clock w' - t < windowMs) recent) < length recent"
      by simp
    then obtain t where t: "t \<in> set recent" "\<not> clock w' - t < windowMs"
      by (metis filter_True less_irrefl)
    then have "Min (set recent) \<le> t" by simp
    with t(2) show ?thesis by simp
  qed
  have again: "waitForSlot e limit windowMs w =
      waitForSlot e limit windowMs (setTimeout e (windowMs - (clock w - hd kept)) (w\<lparr>requests := kept\<rparr>))"
    if "limit \<le> int (length kept)"
  proof -
    from that assms(1) obtain oldest rest where "kept = oldest # rest" by (cases kept) auto
    with that show ?thesis
      unfolding assms(2) by (subst waitForSlot.simps) (simp add: Let_def)
  qed
  from w'(3,4) have "int (length (requests w')) \<le> limit" by simp
  with w' delayed again show ?thesis by blast
qed

theorem waitForSlot_limit_witness:
  "(1::int) \<le> 3 \<and>
   (\<exists>w'. waitForSlot env_down 3 60000 world_busy = Some w' \<and> 60000 \<le> clock w' \<and>
          requests w' = filter (\<lambda>t. clock w' - t < 60000) [0, 1000, 3000] @ [clock w'] \<and>
          length (requests w') \<le> 3)"
proof -
  have r: "requests world_busy = [] @ [0, 1000, 3000]" by (simp add: world_busy_def)
  from waitForSlot_limit [OF _ refl, of 3 env_down 60000 world_busy] obtain w' where w':
    "waitForSlot env_down 3 60000 world_busy = Some w'"
    "requests w' = filter (\<lambda>t. clock w' - t < 60000) (requests world_busy) @ [clock w']"
    "int (length (requests w')) \<le> 3"
    "\<forall>old recent. requests world_busy = old @ recent \<and> int (length recent) = 3 \<longrightarrow>
              Min (set recent) + 60000 \<le> clock w'"
    by auto
  have "int (length [0, 1000, 3000::int]) = 3" by simp
  with w'(4) r have "Min (set [0, 1000, 3000::int]) + 60000 \<le> clock w'" by blast
  then have "60000 \<le> clock w'" by simp
  with w'(1,2,3) show ?thesis by (simp add: world_busy_def)
qed

text \<open>
  C1: with an empty task list \<open>planTasks\<close> fails at once with the error of code NO_TASKS,
  which is not retryable, and leaves the world as it was: the model is not called, no slot
  of the rate limiter is taken, no attempt is made.
\<close>

theorem planTasks_no_tasks:
  "heap w tasks = [] \<Longrightarrow>
     planTasks e tasks w = Some (Inl (Gemini noTasks), w) \<and>
     code noTasks = Some ''NO_TASKS'' \<and> \<not> isRetryableError (Gemini noTasks)"
  by (simp add: planTasks_def noTasks_def isRetryableError_def)

theorem planTasks_no_tasks_witness:
  "heap world0 1 = [] \<and> planTasks env_down 1 world0 = Some (Inl (Gemini noTasks), world0)"
  using planTasks_no_tasks [of world0 1 env_down] by (simp add: world0_def)

lemma retryTrace_4:
  "retryTrace p 0 4 =
     [Generate p, Sleep 1000, Generate p, Sleep 2000, Generate p, Sleep 4000, Generate p]"
  by (simp add: eval_nat_numeral)

lemma outcome_flaky_3:
  "outcome env_flaky p 3 =
     Inr [\<lparr>task = JStr ''Write report'', time = ''9:00 AM'', reason = JStr ''r''\<rparr>]"
proof -
  have "cleanResponse replyText = ''{\"schedule\":[{\"task\":\"Write report\",\"time\":\"09:00\",\"reason\":\"r\"}]}''"
    by code_simp
  moreover have "validateSchedule [JObj [(''task'', JStr ''Write report''), (''time'', JStr ''09:00''), (''reason'', JStr ''r'')]]
    = Inr [\<lparr>task = JStr ''Write report'', time = ''9:00 AM'', reason = JStr ''r''\<rparr>]"
    by code_simp
  moreover have "replyText \<noteq> []" by (simp add: replyText_def)
  ultimately show ?thesis
    by (simp add: outcome_def env_flaky_def handleReply_def parseSchedule_def replyValue_def
          catchParse_def)
qed

text \<open>
  C5: with a non-empty task list \<open>planTasks\<close> returns after \<open>n\<close> attempts, \<open>n\<close> between 1
  and 4, each with one call of the model, and between attempt \<open>i\<close> and attempt \<open>i + 1\<close> it
  sleeps \<open>1000 * 2 ^ i\<close> milliseconds: by the clock, the sleep begins when the call of the
  model of attempt \<open>i\<close> is over, the clock is at least \<open>1000 * 2 ^ i\<close> further when it ends
  (exactly that much with timers that fire on time), and the call of the model of attempt
  \<open>i + 1\<close> does not begin before. A failure is retryable unless it is a classified error
  flagged as not retryable. After retryable failures of the attempts up to \<open>i < 3\<close> attempt
  \<open>i + 1\<close> is made; and when attempts 0 to 2 fail retryably and attempt 3 succeeds, its
  schedule is returned after sleeps of 1000, 2000 and 4000 milliseconds.
\<close>

theorem planTasks_attempts:
  assumes "heap w tasks \<noteq> []" and "p = buildPrompt (heap w tasks)"
    and "k = length (generated (log w))"
  shows "\<exists>n r w' ts. planTasks e tasks w = Some (r, w') \<and> 1 \<le> n \<and> n \<le> 4 \<and>
           log w' = log w @ retryTrace p 0 n \<and>
           generated (log w') = generated (log w) @ replicate n p \<and>
           stamps w' = stamps w @ ts \<and> length ts = length (retryTrace p 0 n) \<and>
           clock w \<le> fst (hd ts) \<and> snd (last ts) = clock w' \<and>
           backoffTimed False 0 ts \<and>
           ((\<forall>j. lateness e j = 0) \<longrightarrow> backoffTimed True 0 ts) \<and>
           (\<forall>i<3. (\<forall>j\<le>i. retryableFailure (outcome e p (k + j))) \<longrightarrow> i + 2 \<le> n) \<and>
           ((\<forall>j<3. retryableFailure (outcome e p (k + j))) \<and> outcome e p (k + 3) = Inr schedule \<longrightarrow>
              r = Inr schedule \<and>
              log w' = log w @ [Generate p, Sleep 1000, Generate p, Sleep 2000, Generate p,
                                Sleep 4000, Generate p])"
proof -
  from planTasks_run [OF assms(1), of e] obtain n r w' ts where run:
    "planTasks e tasks w = Some (r, w')" "1 \<le> n" "n \<le> 4"
    "log w' = log w @ retryTrace p 0 n"
    "\<forall>i<n - 1. retryableFailure (outcome e p (k + i))"
    "n < 4 \<longrightarrow> \<not> retryableFailure (outcome e p (k + (n - 1)))"
    "r = surfaced (outcome e p (k + (n - 1)))"
    and timed: "stamps w' = stamps w @ ts" "length ts = length (retryTrace p 0 n)"
    "clock w \<le> fst (hd ts)" "snd (last ts) = clock w'" "backoffTimed False 0 ts"
    "(\<forall>j. lateness e j = 0) \<longrightarrow> backoffTimed True 0 ts"
    unfolding assms(2,3) by blast
  have next_attempt: "i + 2 \<le> n" if "i < 3" "\<forall>j\<le>i. retryableFailure (outcome e p (k + j))" for i
  proof (rule ccontr)
    assume "\<not> i + 2 \<le> n"
    with that(1) have "n - 1 \<le> i" "n < 4" by simp_all
    with that(2) run(6) show False by blast
  qed
  have last: "r = Inr schedule \<and> log w' = log w @ [Generate p, Sleep 1000, Generate p, Sleep 2000,
      Generate p, Sleep 4000, Generate p]"
    if "\<forall>j<3. retryableFailure (outcome e p (k + j))" "outcome e p (k + 3) = Inr schedule"
  proof -
    have "n = 4"
    proof (rule ccontr)
      assume "n \<noteq> 4"
      with run(2,3) have "n - 1 < 3" "n < 4" by simp_all
      with that(1) run(6) show False by blast
    qed
    with run(4,7) that(2) show ?thesis by (simp add: retryTrace_4 surfaced_def)
  qed
  have "generated (log w') = generated (log w) @ replicate n p"
    by (simp add: run(4) generated_append generated_retryTrace)
  with run(1,2,3,4) timed next_attempt last show ?thesis by blast
qed

theorem planTasks_attempts_witness:
  "heap world0 0 \<noteq> [] \<and>
   (\<exists>w'. planTasks env_flaky 0 world0 =
            Some (Inr [\<lparr>task = JStr ''Write report'', time = ''9:00 AM'', reason = JStr ''r''\<rparr>], w') \<and>
          log w' = [Generate (buildPrompt (heap world0 0)), Sleep 1000,
                    Generate (buildPrompt (heap world0 0)), Sleep 2000,
                    Generate (buildPrompt (heap world0 0)), Sleep 4000,
                    Generate (buildPrompt (heap world0 0))] \<and>
          length (stamps w') = 7 \<and> backoffTimed False 0 (stamps w') \<and>
          snd (last (stamps w')) = clock w')"
proof -
  have h: "heap world0 0 \<noteq> []" and l: "log world0 = []" "stamps world0 = []"
    by (simp_all add: world0_def)
  have f: "\<forall>j<3. retryableFailure (outcome env_flaky (buildPrompt (heap world0 0)) (0 + j))"
    by (simp add: outcome_def env_flaky_def handleReply_def retryableFailure_def isRetryableError_def)
  let ?p = "buildPrompt (heap world0 0)"
  let ?s = "[\<lparr>task = JStr ''Write report'', time = ''9:00 AM'', reason = JStr ''r''\<rparr>]"
  have k: "0 = length (generated (log world0))" by (simp add: l)
  from planTasks_attempts [OF h refl k, where e = env_flaky and schedule = ?s]
  obtain n r w' ts where run: "planTasks env_flaky 0 world0 = Some (r, w')"
    "log w' = log world0 @ retryTrace ?p 0 n" "stamps w' = stamps world0 @ ts"
    "length ts = length (retryTrace ?p 0 n)" "snd (last ts) = clock w'" "backoffTimed False 0 ts"
    "(\<forall>j<3. retryableFailure (outcome env_flaky ?p (0 + j))) \<and> outcome env_flaky ?p (0 + 3) = Inr ?s
       \<longrightarrow> r = Inr ?s \<and> log w' = log world0 @ [Generate ?p, Sleep 1000, Generate ?p, Sleep 2000,
              Generate ?p, Sleep 4000, Generate ?p]"
    by blast
  from run(7) f outcome_flaky_3 have res: "r = Inr ?s"
    "log w' = log world0 @ [Generate ?p, Sleep 1000, Generate ?p, Sleep 2000,
              Generate ?p, Sleep 4000, Generate ?p]" by simp_all
  from run(2) res(2) have "retryTrace ?p 0 n = [Generate ?p, Sleep 1000, Generate ?p, Sleep 2000,
              Generate ?p, Sleep 4000, Generate ?p]" by simp
  then have "length (retryTrace ?p 0 n) = 7" by simp
  with run(4) have "length ts = 7" by simp
  with run res l h show ?thesis by simp
qed

text \<open>
  C6: when attempt \<open>i\<close> is reached and ends with a classified error that is marked as not
  retryable, \<open>planTasks\<close> fails with that very error; attempt \<open>i\<close> made the last call of the
  model, nothing was slept after it, and no further attempt was made. An error that is
  not classified counts as retryable.
\<close>

theorem planTasks_not_retryable:
  assumes "heap w tasks \<noteq> []" and "p = buildPrompt (heap w tasks)"
    and "k = length (generated (log w))"
    and "i \<le> 3" and "\<forall>j<i. retryableFailure (outcome e p (k + j))"
    and "outcome e p (k + i) = Inl (Gemini g)" and "\<not> isRetryable g"
  shows "\<exists>w'. planTasks e tasks w = Some (Inl (Gemini g), w') \<and>
           log w' = log w @ retryTrace p 0 (Suc i) \<and> last (log w') = Generate p \<and>
           generated (log w') = generated (log w) @ replicate (Suc i) p \<and>
           isRetryableError (Gemini g) = isRetryable g \<and> isRetryableError (Other x)"
proof -
  from planTasks_run [OF assms(1), of e] obtain n r w' where run:
    "planTasks e tasks w = Some (r, w')" "1 \<le> n" "n \<le> 4"
    "log w' = log w @ retryTrace p 0 n"
    "\<forall>i<n - 1. retryableFailure (outcome e p (k + i))"
    "n < 4 \<longrightarrow> \<not> retryableFailure (outcome e p (k + (n - 1)))"
    "r = surfaced (outcome e p (k + (n - 1)))"
    unfolding assms(2,3) by blast
  from assms(6,7) have stop: "\<not> retryableFailure (outcome e p (k + i))"
    by (simp add: retryableFailure_def isRetryableError_def)
  have "n - 1 = i"
  proof (rule ccontr)
    assume "n - 1 \<noteq> i"
    then consider "n - 1 < i" | "i < n - 1" by linarith
    then show False
    proof cases
      case 1
      with assms(4,5) run(6) show False by auto
    next
      case 2
      with run(5) stop show False by blast
    qed
  qed
  with run(2) have n: "n = Suc i" by simp
  have "last (log w') = Generate p"
    unfolding run(4) n by (simp add: retryTrace_Nil last_retryTrace)
  moreover have "generated (log w') = generated (log w) @ replicate (Suc i) p"
    unfolding run(4) n by (simp add: generated_append generated_retryTrace)
  moreover have "r = Inl (Gemini g)"
    using run(7) assms(6) \<open>n - 1 = i\<close> by (simp add: surfaced_def)
  ultimately show ?thesis using run(1,4) n by (simp add: isRetryableError_def)
qed

theorem planTasks_not_retryable_witness:
  "heap world0 0 \<noteq> [] \<and> \<not> isRetryable blocked \<and>
   (\<exists>w'. planTasks env_blocked 0 world0 = Some (Inl (Gemini blocked), w') \<and>
          log w' = [Generate (buildPrompt (heap world0 0))])"
proof -
  have h: "heap world0 0 \<noteq> []" and l: "log world0 = []" by (simp_all add: world0_def)
  have b: "\<not> isRetryable blocked" by (simp add: blocked_def)
  have o: "outcome env_blocked (buildPrompt (heap world0 0)) (0 + 0) = Inl (Gemini blocked)"
    by (simp add: outcome_def env_blocked_def handleReply_def)
  from planTasks_not_retryable [OF h refl _ _ _ o b] l h b
  show ?thesis by auto
qed

text \<open>
  C9: whatever \<open>planTasks\<close> returns, the arrays of the caller, and so the task list and
  its elements, are as they were.
\<close>

theorem planTasks_frame:
  "\<exists>r w'. planTasks e tasks w = Some (r, w') \<and> heap w' = heap w"
proof (cases "heap w tasks = []")
  case True
  then show ?thesis by (simp add: planTasks_def)
next
  case False
  from planTasks_run [OF this, of e] show ?thesis by blast
qed

section \<open>Validation of the reply\<close>

lemma is_time24_iff: "is_time24 t \<longleftrightarrow> timeRegex_test t"
proof
  assume "is_time24 t"
  then obtain h m where "h \<in> {0..<24}" "m \<in> {0..<60}" "t \<in> written24 h m"
    unfolding is_time24_def by blast
  then have "h < 24 \<and> m < 60 \<and> t \<in> written24 h m" by simp
  then show "timeRegex_test t" unfolding timeRegex_test_iff by blast
next
  assume "timeRegex_test t"
  then obtain h m where hm: "h < 24" "m < 60" "t \<in> written24 h m"
    unfolding timeRegex_test_iff by blast
  then have "h \<in> {0..<24}" "m \<in> {0..<60}" by simp_all
  with hm(3) show "is_time24 t" unfolding is_time24_def by blast
qed

lemma parts_written24:
  assumes "h < 24" "m < 60" "t \<in> written24 h m"
  shows "map Number (split (CHR '':'') t) = [Some h, Some m]"
proof -
  have "\<exists>hs. t = hs @ CHR '':'' # pad2 m \<and> Number hs = Some h \<and> (\<forall>c \<in> set hs. c \<noteq> CHR '':'')"
  proof (cases "t = pad2 h @ '':'' @ pad2 m")
    case True
    from assms(1) have "h < 100" by simp
    with True show ?thesis by (intro exI [of _ "pad2 h"]) (simp add: Number_pad2 set_pad2)
  next
    case False
    with assms(3) have "h < 10" "t = [digit_char h] @ '':'' @ pad2 m"
      by (auto simp: written24_def toString_nat_small split: if_splits)
    then show ?thesis
      by (intro exI [of _ "[digit_char h]"]) (simp add: Number_digit digit_char_not_colon)
  qed
  then obtain hs where t: "t = hs @ CHR '':'' # pad2 m" and hs: "Number hs = Some h"
    "\<forall>c \<in> set hs. c \<noteq> CHR '':''" by blast
  from assms(2) have "split (CHR '':'') t = [hs, pad2 m]"
    unfolding t by (intro split_colon_digits hs set_pad2) simp
  with hs(1) assms(2) show ?thesis by (simp add: Number_pad2)
qed

lemma minutesOfDay_written24:
  "h < 24 \<Longrightarrow> m < 60 \<Longrightarrow> t \<in> written24 h m \<Longrightarrow> minutesOfDay t = Some (h * 60 + m)"
  by (simp add: minutesOfDay_def parts_written24)

lemma timeRegex_test_convert:
  assumes "timeRegex_test t"
  shows "\<exists>h m. h < 24 \<and> m < 60 \<and> t \<in> written24 h m \<and>
           convertTo12Hour t = Some (display12 h m) \<and> minutesOfDay t = Some (h * 60 + m)"
  using assms convertTo12Hour_written24 minutesOfDay_written24
  unfolding timeRegex_test_iff by blast

lemma timeRegex_test_nonempty: "timeRegex_test t \<Longrightarrow> t \<noteq> []"
  by (auto simp: timeRegex_test_chars)

lemma validateItem_acceptable:
  assumes "acceptable item"
  shows "validateItem item =
           Inr \<lparr>task = getProp item ''task'', time = time (scheduled item),
                reason = getProp item ''reason'', sortTime = timeOf item\<rparr>"
proof -
  from assms obtain t where t: "getProp item ''time'' = JStr t" "timeRegex_test t"
    by (auto simp: acceptable_def is_time24_iff split: jsval.splits)
  from timeRegex_test_convert [OF t(2)] obtain s where s: "convertTo12Hour t = Some s" by blast
  from t(2) have "t \<noteq> []" by (rule timeRegex_test_nonempty)
  with assms t s show ?thesis
    by (simp add: validateItem_def acceptable_def scheduled_def timeOf_def)
qed

lemma validateItem_Inr:
  assumes "validateItem item = Inr v"
  shows "acceptable item"
proof -
  from assms have nn: "item \<noteq> JNull" "item \<noteq> JUndefined"
    and tr: "truthy (getProp item ''task'')" "truthy (getProp item ''time'')"
      "truthy (getProp item ''reason'')"
    by (auto simp: validateItem_def split: if_splits)
  with assms obtain s where s: "ToString (getProp item ''time'') = Some s" "timeRegex_test s"
    by (auto simp: validateItem_def split: if_splits option.splits)
  with assms nn tr obtain t where "getProp item ''time'' = JStr t"
    by (cases "getProp item ''time''") (auto simp: validateItem_def)
  with s nn tr show ?thesis by (simp add: acceptable_def is_time24_iff)
qed

lemma validateItem_modelled: "validateItem item \<noteq> Inl (Other ''outside the model'')"
proof
  assume a: "validateItem item = Inl (Other ''outside the model'')"
  then obtain t where t: "getProp item ''time'' = JStr t" "timeRegex_test t"
    "convertTo12Hour t = None"
    by (auto simp: validateItem_def split: if_splits option.splits jsval.splits)
  from timeRegex_test_convert [OF t(2)] t(3) show False by auto
qed

lemma validateItem_malformed:
  assumes "malformed item"
  shows "\<exists>g. validateItem item = Inl (Gemini g) \<and> code g = Some ''INVALID_FORMAT'' \<and> isRetryable g"
proof (cases "truthy (getProp item ''task'') \<and> truthy (getProp item ''time'') \<and>
    truthy (getProp item ''reason'')")
  case False
  with assms show ?thesis by (auto simp: malformed_def validateItem_def missingFields_def)
next
  case True
  with assms obtain s where "ToString (getProp item ''time'') = Some s" "\<not> timeRegex_test s"
    by (auto simp: malformed_def is_time24_iff split: option.splits)
  with assms True show ?thesis by (simp add: malformed_def validateItem_def invalidTime_def)
qed

lemma map_throwing_all:
  "\<forall>x \<in> set xs. f x = Inr (g x) \<Longrightarrow> map_throwing f xs = Inr (map g xs)"
  by (induction xs) simp_all

lemma map_throwing_Inr:
  "map_throwing f xs = Inr ys \<Longrightarrow> \<forall>x \<in> set xs. \<exists>y. f x = Inr y"
  by (induction xs arbitrary: ys) (auto split: sum.splits)

lemma map_throwing_first:
  assumes "\<forall>x \<in> set pre. \<exists>y. f x = Inr y" "f x = Inl err"
  shows "map_throwing f (pre @ x # post) = Inl err"
  using assms by (induction pre) (auto split: sum.splits)

lemma map_throwing_Inl:
  "map_throwing f xs = Inl err \<Longrightarrow> \<exists>x \<in> set xs. f x = Inl err"
  by (induction xs) (auto split: sum.splits)

lemma insertBy_insort_key:
  assumes "\<forall>v \<in> set (x # ys). minutesOfDay (sortTime v) \<noteq> None"
  shows "insertBy compareFn x ys = insort_key sortKey x ys"
  using assms
proof (induction ys)
  case Nil
  then show ?case by simp
next
  case (Cons y ys)
  then obtain a b where "minutesOfDay (sortTime x) = Some a" "minutesOfDay (sortTime y) = Some b"
    by auto
  then have "compareFn x y \<le> 0 \<longleftrightarrow> sortKey x \<le> sortKey y"
    by (simp add: compareFn_def sortKey_def)
  with Cons show ?case by simp
qed

lemma js_sort_sort_key:
  assumes "\<forall>v \<in> set vs. minutesOfDay (sortTime v) \<noteq> None"
  shows "js_sort compareFn vs = sort_key sortKey vs"
  using assms
proof (induction vs)
  case Nil
  then show ?case by (simp add: js_sort_def)
next
  case (Cons v vs)
  then have "js_sort compareFn vs = sort_key sortKey vs" by simp
  moreover from Cons.prems have "\<forall>u \<in> set (v # sort_key sortKey vs). minutesOfDay (sortTime u) \<noteq> None"
    by simp
  ultimately show ?case
    using insertBy_insort_key [of v "sort_key sortKey vs"] by (simp add: js_sort_def)
qed

lemma insort_key_map: "insort_key k (f x) (map f xs) = map f (insort_key (\<lambda>y. k (f y)) x xs)"
  by (induction xs) simp_all

lemma sort_key_map: "sort_key k (map f xs) = map f (sort_key (\<lambda>y. k (f y)) xs)"
  by (induction xs) (simp_all add: insort_key_map)

lemma acceptable_time:
  assumes "acceptable item"
  shows "\<exists>h m. h < 24 \<and> m < 60 \<and> getProp item ''time'' = JStr (timeOf item) \<and>
           timeOf item \<in> written24 h m \<and> minutesOf item = h * 60 + m \<and>
           time (scheduled item) = display12 h m"
proof -
  from assms obtain t where t: "getProp item ''time'' = JStr t" "timeRegex_test t"
    by (auto simp: acceptable_def is_time24_iff split: jsval.splits)
  from timeRegex_test_convert [OF t(2)] t(1) show ?thesis
    by (auto simp: timeOf_def minutesOf_def scheduled_def)
qed

lemma validateSchedule_Inr:
  assumes "validateSchedule items = Inr out"
  shows "list_all acceptable items" and "out = map scheduled (sort_key minutesOf items)"
proof -
  let ?v = "\<lambda>item. \<lparr>task = getProp item ''task'', time = time (scheduled item),
                     reason = getProp item ''reason'', sortTime = timeOf item\<rparr>"
  from assms obtain vs where vs: "map_throwing validateItem items = Inr vs"
    by (auto simp: validateSchedule_def split: sum.splits)
  from map_throwing_Inr [OF this] show acc: "list_all acceptable items"
    by (auto simp: list_all_iff dest: validateItem_Inr)
  then have "\<forall>item \<in> set items. validateItem item = Inr (?v item)"
    by (simp add: list_all_iff validateItem_acceptable)
  from map_throwing_all [OF this] vs have vs_eq: "vs = map ?v items" by simp
  have some: "\<forall>v \<in> set vs. minutesOfDay (sortTime v) \<noteq> None"
  proof
    fix v assume "v \<in> set vs"
    then obtain item where item: "item \<in> set items" "v = ?v item" unfolding vs_eq by auto
    with acc have "acceptable item" by (simp add: list_all_iff)
    then obtain t where "getProp item ''time'' = JStr t" "timeRegex_test t"
      by (auto simp: acceptable_def is_time24_iff split: jsval.splits)
    with timeRegex_test_convert [of t] item(2) show "minutesOfDay (sortTime v) \<noteq> None"
      by (auto simp: timeOf_def)
  qed
  have key: "(\<lambda>item. sortKey (?v item)) = minutesOf"
    by (rule ext) (simp add: sortKey_def minutesOf_def)
  have tr: "ScheduledTask.truncate (?v item) = scheduled item" for item
    by (simp add: ScheduledTask.truncate_def scheduled_def)
  have "js_sort compareFn vs = sort_key sortKey vs"
    by (rule js_sort_sort_key [OF some])
  also have "\<dots> = map ?v (sort_key minutesOf items)"
    unfolding vs_eq sort_key_map key ..
  finally have sorted_vs: "js_sort compareFn vs = map ?v (sort_key minutesOf items)" .
  from assms vs have "out = map ScheduledTask.truncate (js_sort compareFn vs)"
    by (simp add: validateSchedule_def)
  also have "\<dots> = map scheduled (sort_key minutesOf items)"
    unfolding sorted_vs by (simp add: tr)
  finally show "out = map scheduled (sort_key minutesOf items)" .
qed

lemma validateSchedule_acceptable:
  assumes "list_all acceptable items"
  shows "\<exists>out. validateSchedule items = Inr out"
proof -
  let ?v = "\<lambda>item. \<lparr>task = getProp item ''task'', time = time (scheduled item),
                     reason = getProp item ''reason'', sortTime = timeOf item\<rparr>"
  from assms have "\<forall>item \<in> set items. validateItem item = Inr (?v item)"
    by (simp add: list_all_iff validateItem_acceptable)
  from map_throwing_all [OF this] show ?thesis by (simp add: validateSchedule_def)
qed

lemma validateSchedule_items3: "validateSchedule items3 = Inr out3"
  by code_simp

lemma validateItem_unreadable:
  assumes "unreadable item"
  shows "\<exists>x. validateItem item = Inl (Other x)"
proof (cases "item = JNull \<or> item = JUndefined")
  case True
  then show ?thesis by (auto simp: validateItem_def)
next
  case False
  with assms have tr: "truthy (getProp item ''task'')" "truthy (getProp item ''time'')"
    "truthy (getProp item ''reason'')"
    and nostr: "\<forall>t. getProp item ''time'' \<noteq> JStr t"
    and rd: "ToString (getProp item ''time'') = None \<or>
      (\<exists>s. ToString (getProp item ''time'') = Some s \<and> timeRegex_test s)"
    by (auto simp: unreadable_def is_time24_iff split: jsval.splits option.splits)
  from rd show ?thesis
  proof
    assume "ToString (getProp item ''time'') = None"
    with False tr show ?thesis by (simp add: validateItem_def)
  next
    assume "\<exists>s. ToString (getProp item ''time'') = Some s \<and> timeRegex_test s"
    then obtain s where "ToString (getProp item ''time'') = Some s" "timeRegex_test s" by blast
    with False tr nostr show ?thesis
      by (cases "getProp item ''time''") (simp_all add: validateItem_def)
  qed
qed

lemma entry_cases: "acceptable item \<or> malformed item \<or> unreadable item"
proof (cases "getProp item ''time''")
  case (JStr t)
  then show ?thesis by (auto simp: acceptable_def malformed_def unreadable_def)
qed (auto simp: malformed_def unreadable_def split: option.splits)

lemma catchParse_code:
  assumes "catchParse r = Inl err"
  shows "(\<exists>g. r = Inl (Gemini g) \<and> err = Gemini g) \<or> (\<exists>x. r = Inl (Other x) \<and> err = Gemini parseError)"
  using assms by (auto simp: catchParse_def split: sum.splits thrown.splits)

lemma validateItem_Inl:
  assumes "validateItem item = Inl err"
  shows "(\<exists>g. err = Gemini g \<and> code g = Some ''INVALID_FORMAT'') \<or> (\<exists>x. err = Other x)"
  using assms
  by (cases err)
     (auto simp: validateItem_def missingFields_def invalidTime_def
        split: if_splits option.splits jsval.splits)

lemma cleanResponse_Nil: "cleanResponse [] = []"
  by (simp add: cleanResponse_def trim_def remove_all.simps)

lemma handleReply_Inr:
  assumes "handleReply e (Inr response) = Inr out"
  shows "\<exists>parsed items. JSON_parse e (cleanResponse response) = Some parsed \<and>
           getProp parsed ''schedule'' = JArr items \<and> validateSchedule items = Inr out"
proof -
  from assms have p: "parseSchedule (JSON_parse e) response = Inr out"
    by (auto simp: handleReply_def catchParse_def split: if_splits sum.splits thrown.splits)
  then obtain parsed where parsed: "JSON_parse e (cleanResponse response) = Some parsed"
    by (auto simp: parseSchedule_def split: option.splits)
  with p obtain items where "getProp parsed ''schedule'' = JArr items"
    by (cases "getProp parsed ''schedule''") (auto simp: parseSchedule_def split: if_splits)
  with p parsed show ?thesis by (auto simp: parseSchedule_def split: if_splits)
qed

text \<open>
  C4: when the validation of a schedule succeeds, the returned list is the list of the
  entries put in ascending order of the minutes since midnight of their 24-hour times
  (hours times 60 plus minutes), entries with equal times in the order they came in, and
  each returned entry has the task, the 12-hour time and the reason of its entry and
  nothing else: the sort key is gone.
\<close>

theorem validateSchedule_sorted:
  assumes "validateSchedule items = Inr out"
  shows "\<exists>ordered. out = map scheduled ordered \<and> mset ordered = mset items \<and>
           sorted (map minutesOf ordered) \<and>
           (\<forall>k. filter (\<lambda>item. minutesOf item = k) ordered
                = filter (\<lambda>item. minutesOf item = k) items) \<and>
           (\<forall>item \<in> set items. \<exists>h m. h < 24 \<and> m < 60 \<and>
              getProp item ''time'' = JStr (timeOf item) \<and> timeOf item \<in> written24 h m \<and>
              minutesOf item = h * 60 + m \<and> time (scheduled item) = display12 h m)"
proof -
  from validateSchedule_Inr [OF assms] have acc: "list_all acceptable items"
    and out: "out = map scheduled (sort_key minutesOf items)" .
  have "\<forall>item \<in> set items. \<exists>h m. h < 24 \<and> m < 60 \<and>
      getProp item ''time'' = JStr (timeOf item) \<and> timeOf item \<in> written24 h m \<and>
      minutesOf item = h * 60 + m \<and> time (scheduled item) = display12 h m"
  proof
    fix item assume "item \<in> set items"
    with acc have "acceptable item" by (simp add: list_all_iff)
    then show "\<exists>h m. h < 24 \<and> m < 60 \<and>
      getProp item ''time'' = JStr (timeOf item) \<and> timeOf item \<in> written24 h m \<and>
      minutesOf item = h * 60 + m \<and> time (scheduled item) = display12 h m"
      by (rule acceptable_time)
  qed
  with out show ?thesis
    by (intro exI [of _ "sort_key minutesOf items"]) (simp add: sort_key_stable)
qed

theorem validateSchedule_sorted_witness:
  "validateSchedule items3 = Inr out3 \<and>
   (\<exists>ordered. out3 = map scheduled ordered \<and> mset ordered = mset items3 \<and>
      sorted (map minutesOf ordered))"
  using validateSchedule_sorted [OF validateSchedule_items3] validateSchedule_items3 by blast

text \<open>
  C2, as the code has it: the pattern accepts a time string exactly when it writes a time
  of the 24-hour clock, hours 0 to 23 in one or two digits and minutes 0 to 59 in two, so
  9:00 is accepted and 24:15 and 25:00 are not. A schedule is validated exactly when every
  entry is acceptable, and then every entry is returned: there is no partial schedule. The
  entries are checked in order and the first one that is not acceptable ends the
  validation. When it is malformed (a value other than \<^verbatim>\<open>null\<close> with a missing or empty
  task, time or reason, or with a time whose text does not match), the error is the
  InvalidFormatError. When it is unreadable (\<^verbatim>\<open>null\<close>, or with a time that is not a
  string and cannot be read as text or reads as a matching one), the error is the
  ParseError. An entry is acceptable, malformed or unreadable, so these are all the cases.
\<close>

theorem validateSchedule_all_or_nothing:
  "(timeRegex_test t \<longleftrightarrow> (\<exists>h m. h < 24 \<and> m < 60 \<and> t \<in> written24 h m)) \<and>
   timeRegex_test ''9:00'' \<and> \<not> timeRegex_test ''24:15'' \<and> \<not> timeRegex_test ''25:00'' \<and>
   ((\<exists>out. validateSchedule items = Inr out) \<longleftrightarrow> list_all acceptable items) \<and>
   (validateSchedule items = Inr out \<longrightarrow> length out = length items) \<and>
   (items = pre @ item # post \<and> list_all acceptable pre \<and> malformed item \<longrightarrow>
      (\<exists>g. catchParse (validateSchedule items) = Inl (Gemini g) \<and>
           code g = Some ''INVALID_FORMAT'')) \<and>
   (items = pre @ item # post \<and> list_all acceptable pre \<and> unreadable item \<longrightarrow>
      catchParse (validateSchedule items) = Inl (Gemini parseError)) \<and>
   code parseError = Some ''PARSE_ERROR'' \<and>
   (acceptable item \<or> malformed item \<or> unreadable item) \<and>
   (catchParse (validateSchedule items) = Inl err \<longrightarrow>
      (\<exists>g. err = Gemini g \<and> (code g = Some ''INVALID_FORMAT'' \<or> code g = Some ''PARSE_ERROR'')))"
proof -
  have ex: "timeRegex_test ''9:00''" "\<not> timeRegex_test ''24:15''" "\<not> timeRegex_test ''25:00''"
    by code_simp+
  have iff: "(\<exists>out. validateSchedule items = Inr out) \<longleftrightarrow> list_all acceptable items"
    using validateSchedule_Inr(1) validateSchedule_acceptable by blast
  have len: "length out = length items" if "validateSchedule items = Inr out"
    using validateSchedule_Inr(2) [OF that] by simp
  have bad: "\<exists>g. catchParse (validateSchedule items) = Inl (Gemini g) \<and> code g = Some ''INVALID_FORMAT''"
    if "items = pre @ item # post" "list_all acceptable pre" "malformed item"
  proof -
    from validateItem_malformed [OF that(3)] obtain g where g:
      "validateItem item = Inl (Gemini g)" "code g = Some ''INVALID_FORMAT''" by blast
    from that(2) have "\<forall>x \<in> set pre. \<exists>y. validateItem x = Inr y"
      by (auto simp: list_all_iff validateItem_acceptable)
    from map_throwing_first [OF this g(1)] g(2) show ?thesis
      by (simp add: that(1) validateSchedule_def catchParse_def)
  qed
  have err: "\<exists>g. err = Gemini g \<and> (code g = Some ''INVALID_FORMAT'' \<or> code g = Some ''PARSE_ERROR'')"
    if c: "catchParse (validateSchedule items) = Inl err"
  proof -
    from catchParse_code [OF c] show ?thesis
    proof
      assume "\<exists>g. validateSchedule items = Inl (Gemini g) \<and> err = Gemini g"
      then obtain g where g: "validateSchedule items = Inl (Gemini g)" "err = Gemini g" by blast
      then have "map_throwing validateItem items = Inl (Gemini g)"
        by (auto simp: validateSchedule_def split: sum.splits)
      from map_throwing_Inl [OF this] obtain x where "validateItem x = Inl (Gemini g)" by blast
      from validateItem_Inl [OF this] g(2) show ?thesis by simp
    next
      assume "\<exists>x. validateSchedule items = Inl (Other x) \<and> err = Gemini parseError"
      then show ?thesis by (simp add: parseError_def)
    qed
  qed
  have unr: "catchParse (validateSchedule items) = Inl (Gemini parseError)"
    if "items = pre @ item # post" "list_all acceptable pre" "unreadable item"
  proof -
    from validateItem_unreadable [OF that(3)] obtain x where x:
      "validateItem item = Inl (Other x)" by blast
    from that(2) have "\<forall>x \<in> set pre. \<exists>y. validateItem x = Inr y"
      by (auto simp: list_all_iff validateItem_acceptable)
    from map_throwing_first [OF this x] show ?thesis
      by (simp add: that(1) validateSchedule_def catchParse_def)
  qed
  have pe: "code parseError = Some ''PARSE_ERROR''" by (simp add: parseError_def)
  from ex iff len bad unr pe entry_cases [of item] err timeRegex_test_iff [of t]
  show ?thesis by blast
qed

theorem validateSchedule_all_or_nothing_witness:
  "malformed no_task \<and> unreadable array_time \<and> unreadable JNull \<and>
   list_all acceptable [entry ''A'' ''14:30''] \<and>
   (\<exists>g. catchParse (validateSchedule [entry ''A'' ''14:30'', no_task, entry ''B'' ''06:00''])
          = Inl (Gemini g) \<and> code g = Some ''INVALID_FORMAT'') \<and>
   catchParse (validateSchedule [entry ''A'' ''14:30'', array_time, entry ''B'' ''06:00''])
     = Inl (Gemini parseError) \<and>
   catchParse (validateSchedule [entry ''A'' ''14:30'', JNull, no_task]) = Inl (Gemini parseError)"
proof -
  have m: "malformed no_task" by (simp add: malformed_def no_task_def)
  have t: "is_time24 ''14:30''" "is_time24 ''09:00''" unfolding is_time24_iff by code_simp+
  then have a: "list_all acceptable [entry ''A'' ''14:30'']"
    by (simp add: acceptable_def entry_def)
  have u: "unreadable array_time" using t(2) by (simp add: unreadable_def array_time_def)
  have n: "unreadable JNull" by (simp add: unreadable_def)
  from validateSchedule_all_or_nothing
    [where items = "[entry ''A'' ''14:30'', no_task, entry ''B'' ''06:00'']"
       and pre = "[entry ''A'' ''14:30'']" and item = no_task and post = "[entry ''B'' ''06:00'']"]
    m a
  have 1: "\<exists>g. catchParse (validateSchedule [entry ''A'' ''14:30'', no_task, entry ''B'' ''06:00''])
          = Inl (Gemini g) \<and> code g = Some ''INVALID_FORMAT''" by simp
  from validateSchedule_all_or_nothing
    [where items = "[entry ''A'' ''14:30'', array_time, entry ''B'' ''06:00'']"
       and pre = "[entry ''A'' ''14:30'']" and item = array_time and post = "[entry ''B'' ''06:00'']"]
    u a
  have 2: "catchParse (validateSchedule [entry ''A'' ''14:30'', array_time, entry ''B'' ''06:00''])
     = Inl (Gemini parseError)" by simp
  from validateSchedule_all_or_nothing
    [where items = "[entry ''A'' ''14:30'', JNull, no_task]"
       and pre = "[entry ''A'' ''14:30'']" and item = JNull and post = "[no_task]"]
    n a
  have 3: "catchParse (validateSchedule [entry ''A'' ''14:30'', JNull, no_task])
     = Inl (Gemini parseError)" by simp
  from m u n a 1 2 3 show ?thesis by blast
qed


text \<open>
  C2 as stated fails: in the schedule \<^verbatim>\<open>[null, {"task": "", "time": "09:00", "reason": "r"}]\<close>
  the second entry has an empty task, and the reply is rejected with the ParseError, not
  with an InvalidFormatError: reading a field of \<^verbatim>\<open>null\<close> throws first.
\<close>

theorem validateSchedule_counterexample:
  "getProp no_task ''task'' = JStr '''' \<and>
   catchParse (validateSchedule [JNull, no_task]) = Inl (Gemini parseError) \<and>
   code parseError = Some ''PARSE_ERROR''"
  by code_simp

text \<open>
  C10: a reply whose cleaned text parses to an object with an empty array as its schedule
  is validated to the empty list (the empty text being no JSON), and \<open>planTasks\<close> resolves
  with the empty list when the attempt that gets this reply is reached, having called the
  model for it. And whenever \<open>planTasks\<close> resolves, its list comes from the reply of its
  last call of the model: the schedule array of that reply was validated, and the list
  has one entry for each entry of the array, the returned form of that entry, none
  dropped and none added.
\<close>

theorem empty_schedule:
  "(JSON_parse e [] = None \<and> JSON_parse e (cleanResponse response) = Some (JObj ps) \<and>
      map_of ps ''schedule'' = Some (JArr []) \<longrightarrow> handleReply e (Inr response) = Inr []) \<and>
   (heap w tasks \<noteq> [] \<and> p = buildPrompt (heap w tasks) \<and> k = length (generated (log w)) \<and>
      i \<le> 3 \<and> (\<forall>j<i. retryableFailure (outcome e p (k + j))) \<and>
      generateContent e (k + i) p = Inr response \<and> JSON_parse e [] = None \<and>
      JSON_parse e (cleanResponse response) = Some (JObj ps) \<and>
      map_of ps ''schedule'' = Some (JArr []) \<longrightarrow>
      (\<exists>w'. planTasks e tasks w = Some (Inr [], w') \<and> log w' = log w @ retryTrace p 0 (Suc i))) \<and>
   (planTasks e tasks w = Some (Inr out, w1) \<and> p = buildPrompt (heap w tasks) \<and>
      k = length (generated (log w)) \<longrightarrow>
      (\<exists>i response parsed items. i \<le> 3 \<and> log w1 = log w @ retryTrace p 0 (Suc i) \<and>
         generateContent e (k + i) p = Inr response \<and>
         JSON_parse e (cleanResponse response) = Some parsed \<and>
         getProp parsed ''schedule'' = JArr items \<and> validateSchedule items = Inr out \<and>
         out = map scheduled (sort_key minutesOf items) \<and>
         mset out = image_mset scheduled (mset items) \<and> length out = length items))"
proof -
  have a: "handleReply e (Inr response) = Inr []"
    if "JSON_parse e [] = None" "JSON_parse e (cleanResponse response) = Some (JObj ps)"
      "map_of ps ''schedule'' = Some (JArr [])" for response ps
  proof -
    from that(1,2) have "response \<noteq> []" by (auto simp: cleanResponse_Nil)
    moreover have "validateSchedule [] = Inr []"
      by (simp add: validateSchedule_def js_sort_def)
    ultimately show ?thesis
      using that(2,3) by (simp add: handleReply_def parseSchedule_def catchParse_def)
  qed
  have b: "\<exists>w'. planTasks e tasks w = Some (Inr [], w') \<and> log w' = log w @ retryTrace p 0 (Suc i)"
    if "heap w tasks \<noteq> []" "p = buildPrompt (heap w tasks)" "k = length (generated (log w))"
      "i \<le> 3" "\<forall>j<i. retryableFailure (outcome e p (k + j))"
      "generateContent e (k + i) p = Inr response" "JSON_parse e [] = None"
      "JSON_parse e (cleanResponse response) = Some (JObj ps)"
      "map_of ps ''schedule'' = Some (JArr [])"
  proof -
    from a [OF that(7,8,9)] that(6) have o: "outcome e p (k + i) = Inr []"
      by (simp add: outcome_def)
    then have "\<not> retryableFailure (outcome e p (k + i))" by (simp add: retryableFailure_def)
    from planTasks_stops [OF that(1,2,3,4,5) this] o show ?thesis by (simp add: surfaced_def)
  qed
  have c: "\<exists>i response parsed items. i \<le> 3 \<and> log w1 = log w @ retryTrace p 0 (Suc i) \<and>
         generateContent e (k + i) p = Inr response \<and>
         JSON_parse e (cleanResponse response) = Some parsed \<and>
         getProp parsed ''schedule'' = JArr items \<and> validateSchedule items = Inr out \<and>
         out = map scheduled (sort_key minutesOf items) \<and>
         mset out = image_mset scheduled (mset items) \<and> length out = length items"
    if "planTasks e tasks w = Some (Inr out, w1)" "p = buildPrompt (heap w tasks)"
      "k = length (generated (log w))"
  proof -
    from planTasks_Inr [OF that] obtain i response where i: "i \<le> 3"
      "log w1 = log w @ retryTrace p 0 (Suc i)" "generateContent e (k + i) p = Inr response"
      "handleReply e (Inr response) = Inr out" by blast
    from handleReply_Inr [OF i(4)] obtain parsed items where v:
      "JSON_parse e (cleanResponse response) = Some parsed"
      "getProp parsed ''schedule'' = JArr items" "validateSchedule items = Inr out" by blast
    from validateSchedule_Inr(2) [OF v(3)] have out: "out = map scheduled (sort_key minutesOf items)" .
    then have "mset out = image_mset scheduled (mset items)" "length out = length items"
      by simp_all
    with i v out show ?thesis by blast
  qed
  from a [of response ps] b c show ?thesis by blast
qed

theorem empty_schedule_witness:
  "heap world0 0 \<noteq> [] \<and> handleReply env_idle (Inr ''{\"schedule\": []}'') = Inr [] \<and>
   (\<exists>w'. planTasks env_idle 0 world0 = Some (Inr [], w') \<and>
          log w' = [Generate (buildPrompt (heap world0 0))])"
proof -
  have h: "heap world0 0 \<noteq> []" and l: "log world0 = []" by (simp_all add: world0_def)
  have k: "0 = length (generated (log world0))" by (simp add: l)
  have c: "cleanResponse ''{\"schedule\": []}'' = ''{\"schedule\": []}''" by code_simp
  have p: "JSON_parse env_idle [] = None"
    "JSON_parse env_idle (cleanResponse ''{\"schedule\": []}'') = Some (JObj [(''schedule'', JArr [])])"
    unfolding c by (simp_all add: env_idle_def)
  have m: "map_of [(''schedule'', JArr [])] ''schedule'' = Some (JArr [])" by simp
  have g: "generateContent env_idle (0 + 0) (buildPrompt (heap world0 0)) = Inr ''{\"schedule\": []}''"
    by (simp add: env_idle_def)
  have r: "handleReply env_idle (Inr ''{\"schedule\": []}'') = Inr []"
    using empty_schedule [where e = env_idle and response = "''{\"schedule\": []}''"
        and ps = "[(''schedule'', JArr [])]"] p m by blast
  have "\<exists>w'. planTasks env_idle 0 world0 = Some (Inr [], w') \<and>
      log w' = log world0 @ retryTrace (buildPrompt (heap world0 0)) 0 (Suc 0)"
    using empty_schedule [where e = env_idle and w = world0 and tasks = 0 and i = 0 and k = 0
        and p = "buildPrompt (heap world0 0)" and response = "''{\"schedule\": []}''"
        and ps = "[(''schedule'', JArr [])]"] h k p m g by blast
  with h r l show ?thesis by simp
qed

section \<open>The prompt\<close>

lemma split_absent: "c \<notin> set x \<Longrightarrow> split c x = [x]"
  by (induction x) auto

lemma split_append_sep: "c \<notin> set x \<Longrightarrow> split c (x @ c # rest) = x # split c rest"
  by (induction x) auto

lemma split_join:
  "xs \<noteq> [] \<Longrightarrow> \<forall>x \<in> set xs. c \<notin> set x \<Longrightarrow> split c (join [c] xs) = xs"
proof (induction "[c]" xs rule: join.induct)
  case 1
  then show ?case by simp
next
  case (2 x)
  then show ?case by (simp add: split_absent)
next
  case (3 x y ys)
  then show ?case using split_append_sep [of c x "join [c] (y # ys)"] by simp
qed

lemma join_append:
  "xs \<noteq> [] \<Longrightarrow> ys \<noteq> [] \<Longrightarrow> join sep (xs @ ys) = join sep xs @ sep @ join sep ys"
proof (induction sep xs rule: join.induct)
  case (1 sep)
  then show ?case by simp
next
  case (2 sep x)
  then show ?case by (cases ys) simp_all
next
  case (3 sep x y ys)
  then show ?case by simp
qed

lemma join_Cons_prefix: "pre @ join sep (x # xs) = join sep ((pre @ x) # xs)"
  by (cases xs) simp_all

lemma buildPrompt_join:
  assumes "ts \<noteq> []"
  shows "buildPrompt ts =
           join newline (promptHead @ (''  '' @ description (hd ts)) # map description (tl ts) @ promptTail)"
proof -
  from assms obtain t ts' where ts: "ts = t # ts'" by (cases ts) auto
  have h: "promptHead \<noteq> []" and t: "promptTail \<noteq> []" by (simp_all add: promptHead_def promptTail_def)
  let ?mid = "(''  '' @ description t) # map description ts'"
  have "join newline (promptHead @ ?mid @ promptTail)
      = join newline promptHead @ newline @ join newline (?mid @ promptTail)"
    by (rule join_append [OF h]) simp
  also have "join newline (?mid @ promptTail) = join newline ?mid @ newline @ join newline promptTail"
    by (rule join_append [OF _ t]) simp
  finally have "join newline (promptHead @ ?mid @ promptTail)
      = join newline promptHead @ newline @ join newline ((''  '' @ description t) # map description ts')
          @ newline @ join newline promptTail" .
  also have "join newline ((''  '' @ description t) # map description ts')
      = ''  '' @ join newline (description t # map description ts')"
    by (rule join_Cons_prefix [symmetric])
  finally show ?thesis by (simp add: buildPrompt_def ts del: join.simps)
qed

lemma promptHead_lines: "\<forall>x \<in> set promptHead. CHR 0x0A \<notin> set x"
  by (simp add: promptHead_def)

lemma promptTail_lines: "\<forall>x \<in> set promptTail. CHR 0x0A \<notin> set x"
  by (simp add: promptTail_def)

lemma split_not_Nil: "split c s \<noteq> []"
  by (induction s) (auto split: list.splits)

lemma split_append: "split c (a @ c # b) = split c a @ split c b"
proof (induction a)
  case Nil
  then show ?case by simp
next
  case (Cons x a)
  obtain q qs where q: "split c a = q # qs" using split_not_Nil [of c a] by (cases "split c a") auto
  with Cons show ?case by simp
qed

lemma buildPrompt_split:
  "split (CHR 0x0A) (buildPrompt ts) =
     promptHead @ split (CHR 0x0A) (''  '' @ join newline (map description ts)) @ promptTail"
proof -
  have h: "split (CHR 0x0A) (join [CHR 0x0A] promptHead) = promptHead"
    by (rule split_join) (simp_all add: promptHead_lines, simp add: promptHead_def)
  have t: "split (CHR 0x0A) (join [CHR 0x0A] promptTail) = promptTail"
    by (rule split_join) (simp_all add: promptTail_lines, simp add: promptTail_def)
  let ?x = "''  '' @ join newline (map description ts)"
  have "buildPrompt ts = join [CHR 0x0A] promptHead @ CHR 0x0A # (?x @ CHR 0x0A # join [CHR 0x0A] promptTail)"
    by (simp add: buildPrompt_def newline_def)
  then show ?thesis by (simp only: split_append h t)
qed

text \<open>
  C8, as the code has it: the prompt is a function of the task list alone: every prompt
  that \<open>planTasks\<close> sends is \<open>buildPrompt\<close> of the list it was called with, whatever the
  environment, the clock and the time of the call. For every list the prompt is the head
  of the template, the descriptions verbatim and in their order, joined by line breaks
  (after the two spaces with which the template indents the line), and the tail of the
  template; its lines are the lines of the head, the lines of the joined descriptions and
  the lines of the tail. Each description is a line of its own when no description has a
  line break of its own.
\<close>

theorem buildPrompt_lines:
  "(heap w tasks \<noteq> [] \<longrightarrow>
      (\<exists>n r w'. planTasks e tasks w = Some (r, w') \<and> 1 \<le> n \<and>
         generated (log w') = generated (log w) @ replicate n (buildPrompt (heap w tasks)))) \<and>
   buildPrompt ts =
     join newline promptHead @ newline @ ''  '' @ join newline (map description ts) @ newline
       @ join newline promptTail \<and>
   split (CHR 0x0A) (buildPrompt ts) =
     promptHead @ split (CHR 0x0A) (''  '' @ join newline (map description ts)) @ promptTail \<and>
   (ts \<noteq> [] \<and> (\<forall>t \<in> set ts. CHR 0x0A \<notin> set (description t)) \<longrightarrow>
      split (CHR 0x0A) (buildPrompt ts) =
        promptHead @ (''  '' @ description (hd ts)) # map description (tl ts) @ promptTail)"
proof -
  have a: "\<exists>n r w'. planTasks e tasks w = Some (r, w') \<and> 1 \<le> n \<and>
         generated (log w') = generated (log w) @ replicate n (buildPrompt (heap w tasks))"
    if "heap w tasks \<noteq> []"
  proof -
    from planTasks_run [OF that, of e] obtain n r w' where
      "planTasks e tasks w = Some (r, w')" "1 \<le> n"
      "log w' = log w @ retryTrace (buildPrompt (heap w tasks)) 0 n" by blast
    then show ?thesis by (auto simp: generated_append generated_retryTrace)
  qed
  have b: "split (CHR 0x0A) (buildPrompt ts) =
        promptHead @ (''  '' @ description (hd ts)) # map description (tl ts) @ promptTail"
    if "ts \<noteq> []" "\<forall>t \<in> set ts. CHR 0x0A \<notin> set (description t)"
  proof -
    from that obtain t ts' where ts: "ts = t # ts'" by (cases ts) auto
    let ?lines = "promptHead @ (''  '' @ description (hd ts)) # map description (tl ts) @ promptTail"
    from that(2) have "\<forall>x \<in> set ?lines. CHR 0x0A \<notin> set x"
      using promptHead_lines promptTail_lines by (auto simp: ts)
    moreover have "?lines \<noteq> []" by simp
    ultimately have "split (CHR 0x0A) (join [CHR 0x0A] ?lines) = ?lines" by (rule split_join [rotated])
    then show ?thesis unfolding buildPrompt_join [OF that(1)] newline_def .
  qed
  have c: "buildPrompt ts =
     join newline promptHead @ newline @ ''  '' @ join newline (map description ts) @ newline
       @ join newline promptTail"
    by (simp add: buildPrompt_def)
  from a b c buildPrompt_split [of ts] show ?thesis by blast
qed

theorem buildPrompt_lines_witness:
  "two_tasks \<noteq> [] \<and> list_all (\<lambda>t. CHR 0x0A \<notin> set (description t)) two_tasks \<and>
   split (CHR 0x0A) (buildPrompt two_tasks) = promptHead @ [''  Write report'', ''Call Sam''] @ promptTail"
proof -
  have ne: "two_tasks \<noteq> []" and nl: "\<forall>t \<in> set two_tasks. CHR 0x0A \<notin> set (description t)"
    by (simp_all add: two_tasks_def)
  from buildPrompt_lines [where ts = two_tasks] ne nl
  have "split (CHR 0x0A) (buildPrompt two_tasks) =
      promptHead @ (''  '' @ description (hd two_tasks)) # map description (tl two_tasks) @ promptTail"
    by blast
  then show ?thesis by (simp add: two_tasks_def)
qed

text \<open>
  C8 as stated fails: a description with a line break is not on a line of its own. The
  task list with the one description \<^verbatim>\<open>a\<close>, line break, \<^verbatim>\<open>b\<close> gives the two lines
  \<^verbatim>\<open>  a\<close> and \<^verbatim>\<open>b\<close>, and the very prompt of the list of the two tasks \<^verbatim>\<open>a\<close> and \<^verbatim>\<open>b\<close>.
\<close>

theorem buildPrompt_counterexample:
  "description line_break_task = [CHR ''a'', CHR 0x0A, CHR ''b''] \<and>
   split (CHR 0x0A) (buildPrompt [line_break_task]) = promptHead @ [''  a'', ''b''] @ promptTail \<and>
   buildPrompt [line_break_task] = buildPrompt [\<lparr>description = ''a''\<rparr>, \<lparr>description = ''b''\<rparr>]"
proof -
  have "split (CHR 0x0A) (''  '' @ join newline (map description [line_break_task])) = [''  a'', ''b'']"
    by (simp add: line_break_task_def)
  then have "split (CHR 0x0A) (buildPrompt [line_break_task]) = promptHead @ [''  a'', ''b''] @ promptTail"
    by (simp only: buildPrompt_split)
  moreover have "buildPrompt [line_break_task] = buildPrompt [\<lparr>description = ''a''\<rparr>, \<lparr>description = ''b''\<rparr>]"
    by (simp add: buildPrompt_def line_break_task_def newline_def)
  ultimately show ?thesis by (simp add: line_break_task_def)
qed

end
